theory Spec2Isabelle
  imports Main "HOL-Library.Word" "HOL-Library.Sublist"
begin

unbundle bit_operations_syntax

section \<open>Text: bytes, UTF-16 strings and the streaming UTF-8 decoder\<close>

text \<open>
  The four demo pages (market-trends, launch-detector, crisis-detector and visual-pricing)
  each read a streamed HTTP body with the same loop:
  \<^verbatim>\<open>
      let buffer = "";
      while (true) {
        const { done, value } = await reader.read();
        if (done) break;
        buffer += decoder.decode(value, { stream: true });
        const lines = buffer.split("\n\n");
        buffer = lines.pop() || "";
        for (const line of lines) { ... }
      }
  \<close>
  A chunk is a \<open>Uint8Array\<close>, a JavaScript string is a sequence of UTF-16 code units.
\<close>

type_synonym byte = "8 word"
type_synonym code_unit = "16 word"
type_synonym jsstring = "code_unit list"

text \<open>String literals of the source, written in ASCII.\<close>

definition js :: "string \<Rightarrow> jsstring" where
  "js s = map of_char s"

definition utf8 :: "string \<Rightarrow> byte list" where
  "utf8 s = map of_char s"

text \<open>
  \<open>new TextDecoder()\<close> is the platform's UTF-8 decoder. It is a state machine over bytes
  (the Encoding Standard's "utf-8 decoder"): the code point under construction, the
  continuation bytes seen and needed, the bounds for the next continuation byte, and
  whether the byte order mark has been dealt with. With \<open>{ stream: true }\<close> the state
  survives from one call of \<open>decode\<close> to the next and nothing is flushed at the end of a
  chunk. A malformed sequence yields U+FFFD (the decoder is not fatal), and the byte that
  ended it is looked at again.
\<close>

record utf8_decoder =
  code_point :: "32 word"
  bytes_seen :: nat
  bytes_needed :: nat
  lower_boundary :: byte
  upper_boundary :: byte
  bom_seen :: bool

datatype handler_result = Continue | CodePoint "32 word" | DecodeError

definition new_decoder :: utf8_decoder where
  "new_decoder = \<lparr>code_point = 0, bytes_seen = 0, bytes_needed = 0,
     lower_boundary = 0x80, upper_boundary = 0xBF, bom_seen = False\<rparr>"

definition lead_byte :: "utf8_decoder \<Rightarrow> byte \<Rightarrow> utf8_decoder \<times> handler_result" where
  "lead_byte d b =
     (if b \<le> 0x7F then (d, CodePoint (ucast b))
      else if 0xC2 \<le> b \<and> b \<le> 0xDF then
        (d\<lparr>bytes_needed := 1, code_point := ucast (b AND 0x1F)\<rparr>, Continue)
      else if 0xE0 \<le> b \<and> b \<le> 0xEF then
        (d\<lparr>lower_boundary := (if b = 0xE0 then 0xA0 else lower_boundary d),
            upper_boundary := (if b = 0xED then 0x9F else upper_boundary d),
            bytes_needed := 2, code_point := ucast (b AND 0xF)\<rparr>, Continue)
      else if 0xF0 \<le> b \<and> b \<le> 0xF4 then
        (d\<lparr>lower_boundary := (if b = 0xF0 then 0x90 else lower_boundary d),
            upper_boundary := (if b = 0xF4 then 0x8F else upper_boundary d),
            bytes_needed := 3, code_point := ucast (b AND 0x7)\<rparr>, Continue)
      else (d, DecodeError))"

definition reset_decoder :: "utf8_decoder \<Rightarrow> utf8_decoder" where
  "reset_decoder d = d\<lparr>code_point := 0, bytes_needed := 0, bytes_seen := 0,
     lower_boundary := 0x80, upper_boundary := 0xBF\<rparr>"

definition utf8_handler :: "utf8_decoder \<Rightarrow> byte \<Rightarrow> utf8_decoder \<times> handler_result list" where
  "utf8_handler d b =
     (if bytes_needed d = 0 then (case lead_byte d b of (d', r) \<Rightarrow> (d', [r]))
      else if \<not> (lower_boundary d \<le> b \<and> b \<le> upper_boundary d) then
        (case lead_byte (reset_decoder d) b of (d', r) \<Rightarrow> (d', [DecodeError, r]))
      else
        (let d1 = d\<lparr>lower_boundary := 0x80, upper_boundary := 0xBF,
                      code_point := push_bit 6 (code_point d) OR ucast (b AND 0x3F),
                      bytes_seen := bytes_seen d + 1\<rparr>
         in if bytes_seen d1 \<noteq> bytes_needed d1 then (d1, [Continue])
            else (reset_decoder d1, [CodePoint (code_point d1)])))"

text \<open>A code point above U+FFFF becomes a surrogate pair in the JavaScript string.\<close>

definition utf16_units :: "32 word \<Rightarrow> jsstring" where
  "utf16_units cp =
     (if cp < 0x10000 then [ucast cp]
      else [0xD800 + ucast (drop_bit 10 (cp - 0x10000)),
            0xDC00 + ucast ((cp - 0x10000) AND 0x3FF)])"

text \<open>Serialising the decoder's output drops one leading U+FEFF, once per decoder.\<close>

fun serialize :: "bool \<Rightarrow> handler_result list \<Rightarrow> bool \<times> jsstring" where
  "serialize bom [] = (bom, [])"
| "serialize bom (Continue # rs) = serialize bom rs"
| "serialize bom (DecodeError # rs) =
     (case serialize True rs of (bom', out) \<Rightarrow> (bom', 0xFFFD # out))"
| "serialize bom (CodePoint cp # rs) =
     (if \<not> bom \<and> cp = 0xFEFF then serialize True rs
      else (case serialize True rs of (bom', out) \<Rightarrow> (bom', utf16_units cp @ out)))"

definition decode_byte :: "utf8_decoder \<Rightarrow> byte \<Rightarrow> jsstring \<times> utf8_decoder" where
  "decode_byte d b =
     (case utf8_handler d b of (d', rs) \<Rightarrow>
        (case serialize (bom_seen d') rs of (bom', out) \<Rightarrow> (out, d'\<lparr>bom_seen := bom'\<rparr>)))"

text \<open>\<open>decoder.decode(value, { stream: true })\<close>: the text of one chunk and the decoder after it.\<close>

fun decode :: "utf8_decoder \<Rightarrow> byte list \<Rightarrow> jsstring \<times> utf8_decoder" where
  "decode d [] = ([], d)"
| "decode d (b # bs) =
     (case decode_byte d b of (out, d') \<Rightarrow>
        (case decode d' bs of (out', d'') \<Rightarrow> (out @ out', d'')))"

text \<open>
  \<open>buffer.split("\n\n")\<close>: the pieces between the occurrences of the two-unit separator,
  found from the left and not overlapping; the result always has at least one piece, the
  last one being the text after the last separator.
\<close>

fun split_records :: "jsstring \<Rightarrow> jsstring list" where
  "split_records (a # b # cs) =
     (if a = 0x0A \<and> b = 0x0A then [] # split_records cs
      else (case split_records (b # cs) of
              [] \<Rightarrow> [[a]]
            | r # rs \<Rightarrow> (a # r) # rs))"
| "split_records [a] = [[a]]"
| "split_records [] = [[]]"

text \<open>\<open>lines.pop()\<close> removes and returns the last element, \<open>undefined\<close> on an empty array.\<close>

definition pop :: "'a list \<Rightarrow> 'a option \<times> 'a list" where
  "pop xs = (if xs = [] then (None, []) else (Some (last xs), butlast xs))"

text \<open>\<open>x || ""\<close> on a string or \<open>undefined\<close>.\<close>

fun or_empty :: "jsstring option \<Rightarrow> jsstring" where
  "or_empty None = []"
| "or_empty (Some s) = (if s = [] then [] else s)"

text \<open>An occurrence of the record delimiter in a text.\<close>

fun has_delimiter :: "jsstring \<Rightarrow> bool" where
  "has_delimiter (a # b # cs) = ((a = 0x0A \<and> b = 0x0A) \<or> has_delimiter (b # cs))"
| "has_delimiter [a] = False"
| "has_delimiter [] = False"

section \<open>Events, errors and the input of a run\<close>

text \<open>
  The value of an \<open>unknown\<close> entry of \<open>metadata\<close>. The code only asks whether such a value
  is truthy and reads a property of it; a number is falsy exactly when it is zero.
\<close>

datatype jsvalue =
    JNull
  | JBool bool
  | JNum int
  | JStr jsstring
  | JArr "jsvalue list"
  | JObj "(jsstring \<times> jsvalue) list"

fun truthy :: "jsvalue \<Rightarrow> bool" where
  "truthy JNull = False"
| "truthy (JBool b) = b"
| "truthy (JNum n) = (n \<noteq> 0)"
| "truthy (JStr s) = (s \<noteq> [])"
| "truthy (JArr vs) = True"
| "truthy (JObj kvs) = True"

fun truthy_opt :: "jsvalue option \<Rightarrow> bool" where
  "truthy_opt None = False"
| "truthy_opt (Some v) = truthy v"

fun truthy_str :: "jsstring option \<Rightarrow> bool" where
  "truthy_str None = False"
| "truthy_str (Some s) = (s \<noteq> [])"

fun truthy_bool :: "bool option \<Rightarrow> bool" where
  "truthy_bool None = False"
| "truthy_bool (Some b) = b"

fun get_prop :: "jsvalue \<Rightarrow> jsstring \<Rightarrow> jsvalue option" where
  "get_prop (JObj kvs) k = map_of kvs k"
| "get_prop v k = None"

text \<open>
  Each of launch-detector, crisis-detector and market-trends declares its \<open>StreamEvent\<close>
  in its \<open>types\<close> file, with the same fields (market-trends names the two entries of
  \<open>metadata\<close> that it reads, \<open>forecast\<close> and \<open>market_data\<close>); this is launch-detector's. In
  visual-pricing the parsed \<open>data\<close> is untyped (\<open>any\<close>) and read through the same fields; a
  value with an agent is then cast to
  \<open>AgentMessage { agent; thought_type; content; is_final; metadata? }\<close>.
  \<^verbatim>\<open>
  export interface StreamEvent {
    agent?: LaunchAgent;
    thought_type?: ThoughtType;
    content?: string;
    is_final?: boolean;
    metadata?: Record<string, unknown>;
    done?: boolean;
    error?: string;
  }
  \<close>
  An absent field is \<open>None\<close>. The field \<open>done\<close> is called \<open>done_flag\<close> here and \<open>error\<close> is
  called \<open>error_field\<close>. The annotation \<open>const event: StreamEvent = JSON.parse(...)\<close> is
  taken at its word: what the parser returns is an object of this shape (a body such as
  \<open>null\<close>, on which reading \<open>event.done\<close> would throw a \<open>TypeError\<close>, is outside the type).
  A condition like \<open>if (event.agent)\<close> asks for truthiness: the field is there and, for a
  string, not empty; for a boolean, \<open>true\<close>.
\<close>

record StreamEvent =
  agent :: "jsstring option"
  thought_type :: "jsstring option"
  content :: "jsstring option"
  is_final :: "bool option"
  metadata :: "jsvalue option"
  done_flag :: "bool option"
  error_field :: "jsstring option"

text \<open>\<open>event.metadata?.key\<close>\<close>

definition get_meta :: "StreamEvent \<Rightarrow> jsstring \<Rightarrow> jsvalue option" where
  "get_meta event k = (case metadata event of None \<Rightarrow> None | Some m \<Rightarrow> get_prop m k)"

text \<open>
  A thrown JavaScript error with its \<open>name\<close> and \<open>message\<close>. \<open>new Error(m)\<close> has the name
  "Error"; the rejection of an aborted fetch or read has the name "AbortError". The
  \<open>SyntaxError\<close> of \<open>JSON.parse\<close> never leaves the inner \<open>try\<close>: it is the result \<open>None\<close> of
  the parser.
\<close>

datatype js_error = JsError (err_name: jsstring) (err_message: jsstring)

definition new_Error :: "jsstring \<Rightarrow> js_error" where
  "new_Error m = JsError (js ''Error'') m"

datatype log_entry = SSE_parse_error | Analysis_failed js_error

text \<open>
  What the environment gives a run: the outcome of \<open>fetch\<close>, and for a response with a
  body what the successive calls of \<open>reader.read()\<close> deliver. After the last element of
  the list, \<open>read\<close> reports \<open>done\<close> (end of the stream).
\<close>

datatype read_result = Chunk "byte list" | ReadThrows js_error

datatype fetch_result =
    FetchThrows js_error
  | Response (ok: bool) (statusText: jsstring) (body: "read_result list option")

text \<open>
  What a run holds and knows of the body stream through its reader. \<open>getReader()\<close> locks
  the stream to the reader, and only \<open>releaseLock()\<close> would unlock it. \<open>seen\<close> is what the
  reads of this reader have reported so far: nothing but chunks, the end of the stream
  (\<open>done\<close>), or a rejection. The state of the stream itself belongs to its source (it may
  be closed already when its last chunk is delivered) and is not part of the model.
\<close>

datatype reads_seen = No_end_seen | End_reported | Read_rejected

record reader_state =
  locked :: bool
  seen :: reads_seen

section \<open>The read loop\<close>

datatype signal = Next | Break | Throw js_error

text \<open>
  \<open>for (const line of lines) { ... }\<close> over a per-line body: \<open>continue\<close> and falling through
  go on with the next line, \<open>break\<close> leaves this \<open>for\<close> loop (and only it), a thrown error
  leaves the enclosing \<open>try\<close>.
\<close>

fun for_lines :: "('s \<Rightarrow> jsstring \<Rightarrow> signal \<times> 's) \<Rightarrow> 's \<Rightarrow> jsstring list \<Rightarrow> js_error option \<times> 's" where
  "for_lines h st [] = (None, st)"
| "for_lines h st (line # lines) =
     (case h st line of
        (Next, st') \<Rightarrow> for_lines h st' lines
      | (Break, st') \<Rightarrow> (None, st')
      | (Throw e, st') \<Rightarrow> (Some e, st'))"

record 's loop_state =
  buffer :: jsstring
  decoder :: utf8_decoder
  reader :: reader_state
  ui :: 's

text \<open>One pass through the body of \<open>while (true)\<close> for a chunk that \<open>read\<close> delivered.\<close>

definition iteration ::
  "('s \<Rightarrow> jsstring \<Rightarrow> signal \<times> 's) \<Rightarrow> 's loop_state \<Rightarrow> byte list \<Rightarrow> js_error option \<times> 's loop_state" where
  "iteration h ls v =
     (case decode (decoder ls) v of (text, dec') \<Rightarrow>
        (case pop (split_records (buffer ls @ text)) of (last_piece, lines) \<Rightarrow>
           (case for_lines h (ui ls) lines of (thrown, st') \<Rightarrow>
              (thrown, ls\<lparr>buffer := or_empty last_piece, decoder := dec', ui := st'\<rparr>))))"

fun read_loop ::
  "('s \<Rightarrow> jsstring \<Rightarrow> signal \<times> 's) \<Rightarrow> 's loop_state \<Rightarrow> read_result list \<Rightarrow> js_error option \<times> 's loop_state" where
  "read_loop h ls [] = (None, ls\<lparr>reader := (reader ls)\<lparr>seen := End_reported\<rparr>\<rparr>)"
| "read_loop h ls (ReadThrows e # rest) = (Some e, ls\<lparr>reader := (reader ls)\<lparr>seen := Read_rejected\<rparr>\<rparr>)"
| "read_loop h ls (Chunk v # rest) =
     (case iteration h ls v of
        (Some e, ls') \<Rightarrow> (Some e, ls')
      | (None, ls') \<Rightarrow> read_loop h ls' rest)"

text \<open>\<open>response.body?.getReader()\<close>, \<open>new TextDecoder()\<close> and \<open>let buffer = ""\<close>.\<close>

definition enter_loop :: "'s \<Rightarrow> 's loop_state" where
  "enter_loop st = \<lparr>buffer = [], decoder = new_decoder,
     reader = \<lparr>locked = True, seen = No_end_seen\<rparr>, ui = st\<rparr>"

section \<open>\<open>runAnalysis\<close> (market-trends, launch-detector, crisis-detector)\<close>

text \<open>
  \<^verbatim>\<open>
  interface AgentOutput { agent: TrendAgent; content: string; thoughtType?: ThoughtType; }
  \<close>
\<close>

record AgentOutput =
  out_agent :: jsstring
  out_content :: jsstring
  thoughtType :: "jsstring option"

text \<open>
  The component state that \<open>runAnalysis\<close> writes, with the calls of \<open>console.error\<close>. The
  three pages differ only in their result slots (\<open>forecast\<close> and \<open>marketData\<close>,
  \<open>threatLevel\<close>, none), kept in \<open>result\<close>.
\<close>

record 'r run_state =
  outputs :: "AgentOutput list"
  isRunning :: bool
  activeAgent :: "jsstring option"
  result :: 'r
  console :: "log_entry list"

text \<open>What a page does with its result slots: at the start of a run, on a \<open>done\<close> event,
  and after the dispatch of any other event.\<close>

record 'r pipeline =
  on_start :: "'r \<Rightarrow> 'r"
  on_done :: "StreamEvent \<Rightarrow> 'r \<Rightarrow> 'r"
  on_event :: "StreamEvent \<Rightarrow> 'r \<Rightarrow> 'r"

text \<open>
  The body of the \<open>for\<close> loop:
  \<^verbatim>\<open>
          if (!line.startsWith("data: ")) continue;
          try {
            const event: StreamEvent = JSON.parse(line.slice(6));
            if (event.done) { ...; break; }
            if (event.error) throw new Error(event.error);
            if (event.agent && event.content) {
              setActiveAgent(event.agent);
              setOutputs((prev) => [...prev, { agent: event.agent!, content: event.content!,
                                               thoughtType: event.thought_type || undefined }]);
            }
            ...
          } catch (e) {
            if (e instanceof SyntaxError) { console.error("SSE parse error:", e); }
            else { throw e; }
          }
  \<close>
  \<open>JSON.parse\<close> is the platform's; it is the parameter \<open>parse\<close>, \<open>None\<close> when it throws
  its \<open>SyntaxError\<close>.
\<close>

definition dispatch :: "StreamEvent \<Rightarrow> 'r run_state \<Rightarrow> 'r run_state" where
  "dispatch event st =
     (case (agent event, content event) of
        (Some a, Some c) \<Rightarrow>
          (if a \<noteq> [] \<and> c \<noteq> [] then
             st\<lparr>activeAgent := Some a,
                outputs := outputs st @
                  [\<lparr>out_agent = a, out_content = c,
                    thoughtType = (if truthy_str (thought_type event) then thought_type event else None)\<rparr>]\<rparr>
           else st)
      | _ \<Rightarrow> st)"

definition handle_line ::
  "(jsstring \<Rightarrow> StreamEvent option) \<Rightarrow> 'r pipeline \<Rightarrow> 'r run_state \<Rightarrow> jsstring \<Rightarrow> signal \<times> 'r run_state" where
  "handle_line parse P st line =
     (if \<not> prefix (js ''data: '') line then (Next, st)
      else (case parse (drop 6 line) of
              None \<Rightarrow> (Next, st\<lparr>console := console st @ [SSE_parse_error]\<rparr>)
            | Some event \<Rightarrow>
                if truthy_bool (done_flag event) then
                  (Break, st\<lparr>result := on_done P event (result st)\<rparr>)
                else (case error_field event of
                        Some m \<Rightarrow>
                          if m \<noteq> [] then (Throw (new_Error m), st)
                          else (let st1 = dispatch event st
                                in (Next, st1\<lparr>result := on_event P event (result st1)\<rparr>))
                      | None \<Rightarrow>
                          (let st1 = dispatch event st
                           in (Next, st1\<lparr>result := on_event P event (result st1)\<rparr>)))))"

text \<open>
  \<^verbatim>\<open>
    setIsRunning(true);
    setOutputs([]);
    setForecast(null); setMarketData(null);      (the page's own slots)
    abortRef.current = new AbortController();
  \<close>
\<close>

definition start_run :: "'r pipeline \<Rightarrow> 'r run_state \<Rightarrow> 'r run_state" where
  "start_run P st = st\<lparr>isRunning := True, outputs := [], result := on_start P (result st)\<rparr>"

text \<open>The \<open>try\<close> block: the fetch, the reader, the loop. The reader exists once
  \<open>getReader\<close> has returned one.\<close>

definition try_block ::
  "(jsstring \<Rightarrow> StreamEvent option) \<Rightarrow> 'r pipeline \<Rightarrow> 'r run_state \<Rightarrow> fetch_result
     \<Rightarrow> js_error option \<times> 'r run_state \<times> reader_state option" where
  "try_block parse P st response =
     (case response of
        FetchThrows e \<Rightarrow> (Some e, st, None)
      | Response is_ok stxt bd \<Rightarrow>
          (case bd of
             None \<Rightarrow> (Some (new_Error (js ''No reader'')), st, None)
           | Some reads \<Rightarrow>
               (case read_loop (handle_line parse P) (enter_loop st) reads of
                  (thrown, ls) \<Rightarrow> (thrown, ui ls, Some (reader ls)))))"

text \<open>
  \<^verbatim>\<open>
    } catch (e) {
      if ((e as Error).name !== "AbortError") { console.error("Analysis failed:", e); }
    } finally {
      setIsRunning(false);
      setActiveAgent(null);
    }
  \<close>
\<close>

definition catch_block :: "js_error option \<Rightarrow> 'r run_state \<Rightarrow> 'r run_state" where
  "catch_block thrown st =
     (case thrown of
        None \<Rightarrow> st
      | Some e \<Rightarrow>
          if err_name e \<noteq> js ''AbortError'' then st\<lparr>console := console st @ [Analysis_failed e]\<rparr>
          else st)"

definition finally_block :: "'r run_state \<Rightarrow> 'r run_state" where
  "finally_block st = st\<lparr>isRunning := False, activeAgent := None\<rparr>"

definition runAnalysis ::
  "(jsstring \<Rightarrow> StreamEvent option) \<Rightarrow> 'r pipeline \<Rightarrow> 'r run_state \<Rightarrow> fetch_result
     \<Rightarrow> 'r run_state \<times> reader_state option" where
  "runAnalysis parse P st response =
     (case try_block parse P (start_run P st) response of
        (thrown, st', rd) \<Rightarrow> (finally_block (catch_block thrown st'), rd))"

text \<open>
  \<^verbatim>\<open>
  const stopAnalysis = () => {
    abortRef.current?.abort();
    setIsRunning(false);
  };
  \<close>
  The abort makes the pending \<open>fetch\<close> or \<open>reader.read()\<close> of the run reject with an
  "AbortError": in the input of the run, that is \<open>FetchThrows\<close> or \<open>ReadThrows\<close> with an
  error of that name. What \<open>stopAnalysis\<close> writes itself is the running flag.
\<close>

definition stopAnalysis :: "'r run_state \<Rightarrow> 'r run_state" where
  "stopAnalysis st = st\<lparr>isRunning := False\<rparr>"

subsection \<open>The three pages\<close>

text \<open>crisis-detector: no result slot.\<close>

definition crisis_pipeline :: "unit pipeline" where
  "crisis_pipeline = \<lparr>on_start = (\<lambda>r. r), on_done = (\<lambda>event r. r), on_event = (\<lambda>event r. r)\<rparr>"

text \<open>
  launch-detector:
  \<^verbatim>\<open>
            if (event.metadata?.assessment) {
              const assessment = event.metadata.assessment as { threat_level?: ThreatLevel };
              if (assessment.threat_level) { setThreatLevel(assessment.threat_level); }
            }
  \<close>
\<close>

definition launch_pipeline :: "jsvalue option pipeline" where
  "launch_pipeline =
     \<lparr>on_start = (\<lambda>r. None),
      on_done = (\<lambda>event r. r),
      on_event = (\<lambda>event r.
        (case get_meta event (js ''assessment'') of
           None \<Rightarrow> r
         | Some assessment \<Rightarrow>
             if truthy assessment \<and> truthy_opt (get_prop assessment (js ''threat_level''))
             then get_prop assessment (js ''threat_level'') else r))\<rparr>"

text \<open>
  market-trends: on \<open>done\<close>, \<open>if (event.metadata?.market_data) setMarketData(...)\<close>; on any
  other event, \<open>if (event.metadata?.forecast) setForecast(event.metadata.forecast)\<close>.
\<close>

record trends_result =
  forecast :: "jsvalue option"
  marketData :: "jsvalue option"

definition trends_pipeline :: "trends_result pipeline" where
  "trends_pipeline =
     \<lparr>on_start = (\<lambda>r. \<lparr>forecast = None, marketData = None\<rparr>),
      on_done = (\<lambda>event r.
        if truthy_opt (get_meta event (js ''market_data''))
        then r\<lparr>marketData := get_meta event (js ''market_data'')\<rparr> else r),
      on_event = (\<lambda>event r.
        if truthy_opt (get_meta event (js ''forecast''))
        then r\<lparr>forecast := get_meta event (js ''forecast'')\<rparr> else r)\<rparr>"

section \<open>\<open>handleAnalyze\<close> (visual-pricing)\<close>

text \<open>
  \<^verbatim>\<open>
  export type AnalysisStatus = "idle" | "uploading" | "analyzing" | "complete" | "error";
  \<close>
\<close>

datatype AnalysisStatus = idle | uploading | analyzing | complete | error

text \<open>The form fields that \<open>handleAnalyze\<close> checks and the analysis state it writes.\<close>

record vp_state =
  screenshot :: "byte list option"
  productName :: jsstring
  productPrice :: jsstring
  status :: AnalysisStatus
  messages :: "StreamEvent list"
  vp_activeAgent :: "jsstring option"
  recommendation :: "jsvalue option"
  vp_error :: "jsstring option"
  vp_console :: "log_entry list"

text \<open>
  \<^verbatim>\<open>
          if (line.startsWith("data: ")) {
            try {
              const data = JSON.parse(line.slice(6));
              if (data.done) { setStatus("complete"); setActiveAgent(null); continue; }
              if (data.error) { throw new Error(data.error); }
              if (data.agent) {
                setActiveAgent(data.agent as AgentKey);
                setMessages((prev) => [...prev, data as AgentMessage]);
                if (data.agent === "strategist" && data.is_final && data.metadata?.recommendation) {
                  const rec = data.metadata.recommendation;
                  setRecommendation({ ...rec, recommended_price: Number(rec.recommended_price), ... });
                }
              }
            } catch (e) { if (e instanceof SyntaxError) { console.error(...); } else { throw e; } }
          }
  \<close>
  The copy of \<open>rec\<close> with three fields passed through \<open>Number\<close> is floating-point work of
  the platform: it is the parameter \<open>numeric\<close>.
\<close>

definition vp_dispatch :: "(jsvalue \<Rightarrow> jsvalue) \<Rightarrow> StreamEvent \<Rightarrow> vp_state \<Rightarrow> vp_state" where
  "vp_dispatch numeric data st =
     (if truthy_str (agent data) then
        (let st1 = st\<lparr>vp_activeAgent := agent data, messages := messages st @ [data]\<rparr>
         in if agent data = Some (js ''strategist'') \<and> truthy_bool (is_final data)
               \<and> truthy_opt (get_meta data (js ''recommendation''))
            then (case get_meta data (js ''recommendation'') of
                    Some rec \<Rightarrow> st1\<lparr>recommendation := Some (numeric rec)\<rparr>
                  | None \<Rightarrow> st1)
            else st1)
      else st)"

definition vp_handle_line ::
  "(jsstring \<Rightarrow> StreamEvent option) \<Rightarrow> (jsvalue \<Rightarrow> jsvalue) \<Rightarrow> vp_state \<Rightarrow> jsstring \<Rightarrow> signal \<times> vp_state" where
  "vp_handle_line parse numeric st line =
     (if prefix (js ''data: '') line then
        (case parse (drop 6 line) of
           None \<Rightarrow> (Next, st\<lparr>vp_console := vp_console st @ [SSE_parse_error]\<rparr>)
         | Some data \<Rightarrow>
             if truthy_bool (done_flag data) then
               (Next, st\<lparr>status := complete, vp_activeAgent := None\<rparr>)
             else (case error_field data of
                     Some m \<Rightarrow>
                       if m \<noteq> [] then (Throw (new_Error m), st)
                       else (Next, vp_dispatch numeric data st)
                   | None \<Rightarrow> (Next, vp_dispatch numeric data st)))
      else (Next, st))"

text \<open>
  \<^verbatim>\<open>
      const response = await fetch(...);
      if (!response.ok) { throw new Error(`Analysis failed: ${response.statusText}`); }
      const reader = response.body?.getReader();
      if (!reader) throw new Error("No response body");
      ... the loop ...
      setStatus("complete");
      setActiveAgent(null);
  \<close>
\<close>

definition vp_try_block ::
  "(jsstring \<Rightarrow> StreamEvent option) \<Rightarrow> (jsvalue \<Rightarrow> jsvalue) \<Rightarrow> vp_state \<Rightarrow> fetch_result
     \<Rightarrow> js_error option \<times> vp_state \<times> reader_state option" where
  "vp_try_block parse numeric st response =
     (case response of
        FetchThrows e \<Rightarrow> (Some e, st, None)
      | Response is_ok stxt bd \<Rightarrow>
          if \<not> is_ok then (Some (new_Error (js ''Analysis failed: '' @ stxt)), st, None)
          else (case bd of
                  None \<Rightarrow> (Some (new_Error (js ''No response body'')), st, None)
                | Some reads \<Rightarrow>
                    (case read_loop (vp_handle_line parse numeric) (enter_loop st) reads of
                       (Some e, ls) \<Rightarrow> (Some e, ui ls, Some (reader ls))
                     | (None, ls) \<Rightarrow>
                         (None, (ui ls)\<lparr>status := complete, vp_activeAgent := None\<rparr>,
                          Some (reader ls)))))"

text \<open>
  \<^verbatim>\<open>
    } catch (err) {
      setError(err instanceof Error ? err.message : "Analysis failed");
      setStatus("error");
      setActiveAgent(null);
    }
  \<close>
  Every error of this model is an \<open>Error\<close> object.
\<close>

definition vp_catch_block :: "js_error option \<Rightarrow> vp_state \<Rightarrow> vp_state" where
  "vp_catch_block thrown st =
     (case thrown of
        None \<Rightarrow> st
      | Some err \<Rightarrow> st\<lparr>vp_error := Some (err_message err), status := error, vp_activeAgent := None\<rparr>)"

text \<open>
  \<^verbatim>\<open>
    if (!screenshot || !productName || !productPrice) {
      setError("Please fill in all required fields");
      return;
    }
    setStatus("analyzing");
    setMessages([]);
    setActiveAgent(null);
    setRecommendation(null);
    setError(null);
  \<close>
\<close>

definition vp_start_run :: "vp_state \<Rightarrow> vp_state" where
  "vp_start_run st = st\<lparr>status := analyzing, messages := [], vp_activeAgent := None,
     recommendation := None, vp_error := None\<rparr>"

definition handleAnalyze ::
  "(jsstring \<Rightarrow> StreamEvent option) \<Rightarrow> (jsvalue \<Rightarrow> jsvalue) \<Rightarrow> vp_state \<Rightarrow> fetch_result
     \<Rightarrow> vp_state \<times> reader_state option" where
  "handleAnalyze parse numeric st response =
     (if screenshot st = None \<or> productName st = [] \<or> productPrice st = [] then
        (st\<lparr>vp_error := Some (js ''Please fill in all required fields'')\<rparr>, None)
      else
        (case vp_try_block parse numeric (vp_start_run st) response of
           (thrown, st', rd) \<Rightarrow> (vp_catch_block thrown st', rd)))"

section \<open>Notions used to state the properties\<close>

text \<open>
  The state in which the \<open>for\<close> loop stands behind some lines when it gets there, that is
  when none of them made it \<open>break\<close> or throw.
\<close>

fun all_next :: "('s \<Rightarrow> jsstring \<Rightarrow> signal \<times> 's) \<Rightarrow> 's \<Rightarrow> jsstring list \<Rightarrow> 's option" where
  "all_next h st [] = Some st"
| "all_next h st (line # lines) =
     (case h st line of
        (Next, st') \<Rightarrow> all_next h st' lines
      | (Break, st') \<Rightarrow> None
      | (Throw e, st') \<Rightarrow> None)"

text \<open>
  The state of the read loop after some reads when it is still running then: every read
  delivered a chunk and no iteration threw.
\<close>

fun after_chunks ::
  "('s \<Rightarrow> jsstring \<Rightarrow> signal \<times> 's) \<Rightarrow> 's loop_state \<Rightarrow> read_result list \<Rightarrow> 's loop_state option" where
  "after_chunks h ls [] = Some ls"
| "after_chunks h ls (ReadThrows e # rest) = None"
| "after_chunks h ls (Chunk v # rest) =
     (case iteration h ls v of
        (Some e, ls') \<Rightarrow> None
      | (None, ls') \<Rightarrow> after_chunks h ls' rest)"

text \<open>The complete records that an iteration hands to its \<open>for\<close> loop.\<close>

definition batch :: "'s loop_state \<Rightarrow> byte list \<Rightarrow> jsstring list" where
  "batch ls v = snd (pop (split_records (buffer ls @ fst (decode (decoder ls) v))))"

text \<open>What the page shows: the component state without the console.\<close>

definition shown :: "'r run_state \<Rightarrow> AgentOutput list \<times> bool \<times> jsstring option \<times> 'r" where
  "shown st = (outputs st, isRunning st, activeAgent st, result st)"

definition vp_shown ::
  "vp_state \<Rightarrow> (byte list option \<times> jsstring \<times> jsstring)
     \<times> AnalysisStatus \<times> StreamEvent list \<times> jsstring option \<times> jsvalue option \<times> jsstring option" where
  "vp_shown st = ((screenshot st, productName st, productPrice st),
     status st, messages st, vp_activeAgent st, recommendation st, vp_error st)"

text \<open>The records on which the loop body of \<open>runAnalysis\<close> says \<open>break\<close>.\<close>

definition is_done_line :: "(jsstring \<Rightarrow> StreamEvent option) \<Rightarrow> jsstring \<Rightarrow> bool" where
  "is_done_line parse line =
     (prefix (js ''data: '') line
      \<and> (case parse (drop 6 line) of None \<Rightarrow> False | Some event \<Rightarrow> truthy_bool (done_flag event)))"

text \<open>The console grew by diagnostics of skipped records only.\<close>

definition parse_errors_only :: "log_entry list \<Rightarrow> log_entry list \<Rightarrow> bool" where
  "parse_errors_only c c' = (\<exists>k. c' = c @ replicate k SSE_parse_error)"

text \<open>What a caller of the read loop looks at: the thrown error, the component state and
  the reader; the leftover buffer and the decoder are local to the loop.\<close>

definition observed :: "js_error option \<times> 's loop_state \<Rightarrow> js_error option \<times> 's \<times> reader_state" where
  "observed r = (fst r, ui (snd r), reader (snd r))"

section \<open>Sample inputs\<close>

text \<open>
  What \<open>JSON.parse\<close> returns on the bodies used in the examples of this theory; on
  \<open>not-json\<close>, as on every body outside this table, the sample parser reports a syntax
  error.
\<close>

definition empty_event :: StreamEvent where
  "empty_event = \<lparr>agent = None, thought_type = None, content = None, is_final = None,
     metadata = None, done_flag = None, error_field = None\<rparr>"

definition sample_parse :: "jsstring \<Rightarrow> StreamEvent option" where
  \<open>sample_parse s =
     (if s = js ''{"done":true}'' then Some (empty_event\<lparr>done_flag := Some True\<rparr>)
      else if s = js ''{"agent":"a","content":"b"}'' then
        Some (empty_event\<lparr>agent := Some (js ''a''), content := Some (js ''b'')\<rparr>)
      else if s = js ''{"agent":"monitor","content":"ok"}'' then
        Some (empty_event\<lparr>agent := Some (js ''monitor''), content := Some (js ''ok'')\<rparr>)
      else if s = js ''{"agent":"a","content":"'' @ [0xE9] @ js ''"}'' then
        Some (empty_event\<lparr>agent := Some (js ''a''), content := Some [0xE9]\<rparr>)
      else if s = js ''{"agent":"scout"}'' then
        Some (empty_event\<lparr>agent := Some (js ''scout'')\<rparr>)
      else if s = js ''{"agent":"a","content":""}'' then
        Some (empty_event\<lparr>agent := Some (js ''a''), content := Some []\<rparr>)
      else if s = js ''{"error":"boom"}'' then
        Some (empty_event\<lparr>error_field := Some (js ''boom'')\<rparr>)
      else if s = js ''{"agent":"f","content":"c","metadata":{"forecast":{"direction":"up"}}}'' then
        Some (empty_event\<lparr>agent := Some (js ''f''), content := Some (js ''c''),
          metadata := Some (JObj [(js ''forecast'', JObj [(js ''direction'', JStr (js ''up''))])])\<rparr>)
      else None)\<close>

definition event_ab :: StreamEvent where
  "event_ab = empty_event\<lparr>agent := Some (js ''a''), content := Some (js ''b'')\<rparr>"

definition output_ab :: AgentOutput where
  "output_ab = \<lparr>out_agent = js ''a'', out_content = js ''b'', thoughtType = None\<rparr>"

definition done_chunk :: "byte list" where
  \<open>done_chunk = utf8 ''data: {"done":true}\<newline>\<newline>''\<close>

definition late_chunk :: "byte list" where
  \<open>late_chunk = utf8 ''data: {"agent":"a","content":"b"}\<newline>\<newline>''\<close>

definition error_chunk :: "byte list" where
  \<open>error_chunk = utf8 ''data: {"agent":"a","content":"b"}\<newline>\<newline>data: {"error":"boom"}\<newline>\<newline>data: {"agent":"monitor","content":"ok"}\<newline>\<newline>''\<close>

definition forecast_chunk :: "byte list" where
  \<open>forecast_chunk = utf8 ''data: {"agent":"f","content":"c","metadata":{"forecast":{"direction":"up"}}}\<newline>\<newline>''\<close>

definition bad_chunk :: "byte list" where
  \<open>bad_chunk = utf8 ''data: not-json\<newline>\<newline>data: {"agent":"a","content":"b"}\<newline>\<newline>''\<close>

definition boom_chunk :: "byte list" where
  \<open>boom_chunk = utf8 ''data: {"error":"boom"}\<newline>\<newline>''\<close>

definition abort_error :: js_error where
  "abort_error = JsError (js ''AbortError'') (js ''The user aborted a request.'')"

definition idle_run :: "unit run_state" where
  "idle_run = \<lparr>outputs = [], isRunning = False, activeAgent = None, result = (), console = []\<rparr>"

definition idle_trends :: "trends_result run_state" where
  "idle_trends = \<lparr>outputs = [], isRunning = False, activeAgent = None,
     result = \<lparr>forecast = None, marketData = None\<rparr>, console = []\<rparr>"

definition sample_vp :: vp_state where
  "sample_vp = \<lparr>screenshot = Some [0x89, 0x50], productName = js ''Earbuds'',
     productPrice = js ''19.99'', status = idle, messages = [], vp_activeAgent = None,
     recommendation = None, vp_error = None, vp_console = []\<rparr>"

section \<open>Splitting and decoding\<close>

lemma split_records_nonempty [simp]: "split_records s \<noteq> []"
  by (induction s rule: split_records.induct) (auto split: list.splits)

lemma split_records_single: "split_records s = [r] \<Longrightarrow> r = s"
  by (induction s arbitrary: r rule: split_records.induct) (auto split: list.splits if_splits)

lemma split_records_append:
  "split_records (a @ b) = butlast (split_records a) @ split_records (last (split_records a) @ b)"
proof (induction a rule: split_records.induct)
  case (1 x y cs)
  show ?case
  proof (cases "x = 0x0A \<and> y = 0x0A")
    case True
    with 1 show ?thesis by simp
  next
    case False
    obtain r rs where rrs: "split_records (y # cs) = r # rs"
      by (cases "split_records (y # cs)") auto
    have ih: "split_records ((y # cs) @ b) = butlast (r # rs) @ split_records (last (r # rs) @ b)"
      using 1(2)[OF False] rrs by simp
    show ?thesis
    proof (cases rs)
      case Nil
      then have "r = y # cs" using rrs split_records_single by blast
      with Nil rrs False ih show ?thesis by (auto split: list.splits)
    next
      case (Cons r' rs')
      with rrs False ih show ?thesis by (auto split: list.splits)
    qed
  qed
qed simp_all

lemma decode_append:
  "decode d (a @ b) = (case decode d a of (o1, d1) \<Rightarrow> (case decode d1 b of (o2, d2) \<Rightarrow> (o1 @ o2, d2)))"
  by (induction a arbitrary: d) (auto split: prod.splits)

lemma no_delimiter_in_pieces: "p \<in> set (split_records s) \<Longrightarrow> \<not> has_delimiter p"
proof (induction s arbitrary: p rule: split_records.induct)
  case (1 x y cs)
  show ?case
  proof (cases "x = 0x0A \<and> y = 0x0A")
    case True
    with 1 show ?thesis by auto
  next
    case False
    obtain r rs where rrs: "split_records (y # cs) = r # rs"
      by (cases "split_records (y # cs)") auto
    from 1(3) False rrs have "p = x # r \<or> p \<in> set rs" by auto
    then show ?thesis
    proof
      assume p: "p = x # r"
      have nr: "\<not> has_delimiter r" using 1(2)[OF False, of r] rrs by simp
      show ?thesis
      proof (cases r)
        case Nil with p show ?thesis by simp
      next
        case (Cons r1 r')
        have "r1 = y" using rrs Cons by (cases cs) (auto split: if_splits list.splits)
        with p Cons nr False show ?thesis by auto
      qed
    next
      assume "p \<in> set rs"
      then show ?thesis using 1(2)[OF False, of p] rrs by simp
    qed
  qed
qed simp_all

lemma has_delimiter_iff: "has_delimiter s \<longleftrightarrow> (\<exists>a b. s = a @ [0x0A, 0x0A] @ b)"
proof (induction s rule: has_delimiter.induct)
  case (1 x y cs)
  show ?case
  proof
    assume "has_delimiter (x # y # cs)"
    then consider "x = 0x0A \<and> y = 0x0A" | "has_delimiter (y # cs)" by auto
    then show "\<exists>a b. x # y # cs = a @ [0x0A, 0x0A] @ b"
    proof cases
      case 1
      then have "x # y # cs = [] @ [0x0A, 0x0A] @ cs" by simp
      then show ?thesis by blast
    next
      case 2
      with "1.IH" obtain a b where "y # cs = a @ [0x0A, 0x0A] @ b" by auto
      then have "x # y # cs = (x # a) @ [0x0A, 0x0A] @ b" by simp
      then show ?thesis by blast
    qed
  next
    assume "\<exists>a b. x # y # cs = a @ [0x0A, 0x0A] @ b"
    then obtain a b where ab: "x # y # cs = a @ [0x0A, 0x0A] @ b" by auto
    show "has_delimiter (x # y # cs)"
    proof (cases a)
      case Nil with ab show ?thesis by simp
    next
      case (Cons a1 a')
      with ab have "y # cs = a' @ [0x0A, 0x0A] @ b" by simp
      then have "\<exists>a b. y # cs = a @ [0x0A, 0x0A] @ b" by blast
      with "1.IH" have "has_delimiter (y # cs)" by simp
      then show ?thesis by simp
    qed
  qed
next
  case (2 a)
  show ?case by (auto simp: append_eq_Cons_conv)
next
  case 3
  show ?case by simp
qed

lemma split_records_join:
  "concat (map (\<lambda>l. l @ [0x0A, 0x0A]) (butlast (split_records s))) @ last (split_records s) = s"
  by (induction s rule: split_records.induct) (auto split: list.splits)

section \<open>The loops\<close>

lemma all_next_for_lines:
  "all_next h st pre = Some st1 \<Longrightarrow> for_lines h st (pre @ rest) = for_lines h st1 rest"
  by (induction pre arbitrary: st) (auto split: prod.splits signal.splits)

lemma after_chunks_read_loop:
  "after_chunks h ls pre = Some ls1 \<Longrightarrow> read_loop h ls (pre @ rest) = read_loop h ls1 rest"
proof (induction h ls pre rule: after_chunks.induct)
  case (3 h ls v rest')
  then show ?case by (auto split: prod.splits option.splits)
qed simp_all

lemma iteration_batch:
  "iteration h ls v =
     (case for_lines h (ui ls) (batch ls v) of
        (thrown, st') \<Rightarrow>
          (thrown, ls\<lparr>buffer := last (split_records (buffer ls @ fst (decode (decoder ls) v))),
                      decoder := snd (decode (decoder ls) v), ui := st'\<rparr>))"
  by (simp add: iteration_def batch_def pop_def split: prod.splits)

lemma iteration_reader: "reader (snd (iteration h ls v)) = reader ls"
  by (simp add: iteration_batch split: prod.splits)

lemma after_chunks_reader: "after_chunks h ls pre = Some ls1 \<Longrightarrow> reader ls1 = reader ls"
proof (induction h ls pre rule: after_chunks.induct)
  case (3 h ls v rest')
  then show ?case using iteration_reader[of h ls v] by (auto split: prod.splits option.splits)
qed simp_all

lemma error_name_not_abort: "err_name (new_Error m) \<noteq> js ''AbortError''"
  by (simp add: new_Error_def js_def)

lemma handle_line_error:
  assumes "prefix (js ''data: '') line" "parse (drop 6 line) = Some event"
    "\<not> truthy_bool (done_flag event)" "error_field event = Some m" "m \<noteq> []"
  shows "handle_line parse P st line = (Throw (new_Error m), st)"
  using assms by (simp add: handle_line_def)

lemma vp_handle_line_error:
  assumes "prefix (js ''data: '') line" "parse (drop 6 line) = Some event"
    "\<not> truthy_bool (done_flag event)" "error_field event = Some m" "m \<noteq> []"
  shows "vp_handle_line parse numeric st line = (Throw (new_Error m), st)"
  using assms by (simp add: vp_handle_line_def)

lemma read_loop_throw_in_batch:
  assumes "after_chunks h ls0 reads = Some ls"
    and "batch ls v = pre @ line # post"
    and "all_next h (ui ls) pre = Some st1"
    and "h st1 line = (Throw e, st2)"
  shows "fst (read_loop h ls0 (reads @ Chunk v # rest)) = Some e"
    and "ui (snd (read_loop h ls0 (reads @ Chunk v # rest))) = st2"
    and "reader (snd (read_loop h ls0 (reads @ Chunk v # rest))) = reader ls0"
proof -
  have fl: "for_lines h (ui ls) (batch ls v) = (Some e, st2)"
    using assms(2-4) by (simp add: all_next_for_lines)
  have rl: "read_loop h ls0 (reads @ Chunk v # rest) = read_loop h ls (Chunk v # rest)"
    using assms(1) by (rule after_chunks_read_loop)
  show "fst (read_loop h ls0 (reads @ Chunk v # rest)) = Some e"
    by (simp add: rl iteration_batch fl)
  show "ui (snd (read_loop h ls0 (reads @ Chunk v # rest))) = st2"
    by (simp add: rl iteration_batch fl)
  show "reader (snd (read_loop h ls0 (reads @ Chunk v # rest))) = reader ls0"
    using after_chunks_reader[OF assms(1)] by (simp add: rl iteration_batch fl)
qed

lemma for_lines_stops:
  "all_next h st pre = None \<Longrightarrow> for_lines h st (pre @ rest) = for_lines h st pre"
  by (induction pre arbitrary: st) (auto split: prod.splits signal.splits)

lemma handle_line_console:
  "handle_line parse P (st\<lparr>console := c\<rparr>) line =
     (case handle_line parse P st line of
        (sg, s) \<Rightarrow> (sg, s\<lparr>console := c @ drop (length (console st)) (console s)\<rparr>))"
  by (simp add: handle_line_def dispatch_def Let_def split: option.splits prod.splits)

lemma vp_handle_line_console:
  "vp_handle_line parse numeric (st\<lparr>vp_console := c\<rparr>) line =
     (case vp_handle_line parse numeric st line of
        (sg, s) \<Rightarrow> (sg, s\<lparr>vp_console := c @ drop (length (vp_console st)) (vp_console s)\<rparr>))"
  by (simp add: vp_handle_line_def vp_dispatch_def Let_def split: option.splits prod.splits)

lemma for_lines_console:
  "fst (for_lines (handle_line parse P) (st\<lparr>console := c\<rparr>) lines) = fst (for_lines (handle_line parse P) st lines)
   \<and> shown (snd (for_lines (handle_line parse P) (st\<lparr>console := c\<rparr>) lines))
       = shown (snd (for_lines (handle_line parse P) st lines))"
proof (induction lines arbitrary: st c)
  case Nil
  show ?case by (simp add: shown_def)
next
  case (Cons l lines)
  obtain sg s where h: "handle_line parse P st l = (sg, s)" by (cases "handle_line parse P st l")
  show ?case
    using Cons[where st=s and c="c @ drop (length (console st)) (console s)"]
    by (cases sg) (simp_all add: handle_line_console h shown_def)
qed

lemma vp_for_lines_console:
  "fst (for_lines (vp_handle_line parse numeric) (st\<lparr>vp_console := c\<rparr>) lines)
       = fst (for_lines (vp_handle_line parse numeric) st lines)
   \<and> vp_shown (snd (for_lines (vp_handle_line parse numeric) (st\<lparr>vp_console := c\<rparr>) lines))
       = vp_shown (snd (for_lines (vp_handle_line parse numeric) st lines))"
proof (induction lines arbitrary: st c)
  case Nil
  show ?case by (simp add: vp_shown_def)
next
  case (Cons l lines)
  obtain sg s where h: "vp_handle_line parse numeric st l = (sg, s)"
    by (cases "vp_handle_line parse numeric st l")
  show ?case
    using Cons[where st=s and c="c @ drop (length (vp_console st)) (vp_console s)"]
    by (cases sg) (simp_all add: vp_handle_line_console h vp_shown_def)
qed

lemma skip_in_batch:
  assumes "\<And>s. h s bad = (Next, upd s)"
    and "\<And>s ls. fst (for_lines h (upd s) ls) = fst (for_lines h s ls)
                 \<and> view (snd (for_lines h (upd s) ls)) = view (snd (for_lines h s ls))"
  shows "fst (for_lines h st (pre @ bad # post)) = fst (for_lines h st (pre @ post))
       \<and> view (snd (for_lines h st (pre @ bad # post))) = view (snd (for_lines h st (pre @ post)))"
proof (cases "all_next h st pre")
  case None
  then show ?thesis by (simp add: for_lines_stops)
next
  case (Some st1)
  then show ?thesis using assms by (simp add: all_next_for_lines)
qed

text \<open>Within one batch, \<open>runAnalysis\<close> handles nothing behind a \<open>done\<close> event.\<close>

lemma done_stops_batch:
  assumes "prefix (js ''data: '') line" and "parse (drop 6 line) = Some event"
    and "truthy_bool (done_flag event)"
    and "all_next (handle_line parse P) st pre = Some st1"
  shows "for_lines (handle_line parse P) st (pre @ line # post)
           = (None, st1\<lparr>result := on_done P event (result st1)\<rparr>)"
  using assms by (simp add: all_next_for_lines handle_line_def)

subsection \<open>The console, the accumulator and the reader along the loops\<close>

lemma parse_errors_only_refl: "parse_errors_only c c"
  unfolding parse_errors_only_def by (rule exI[of _ 0]) simp

lemma parse_errors_only_trans:
  "parse_errors_only a b \<Longrightarrow> parse_errors_only b c \<Longrightarrow> parse_errors_only a c"
  unfolding parse_errors_only_def
proof -
  assume "\<exists>k. b = a @ replicate k SSE_parse_error" "\<exists>k. c = b @ replicate k SSE_parse_error"
  then obtain k l where "b = a @ replicate k SSE_parse_error" "c = b @ replicate l SSE_parse_error"
    by blast
  then have "c = a @ replicate (k + l) SSE_parse_error" by (simp add: replicate_add)
  then show "\<exists>k. c = a @ replicate k SSE_parse_error" by blast
qed

lemma dispatch_console: "console (dispatch event st) = console st"
  by (simp add: dispatch_def split: option.splits)

lemma handle_line_parse_errors:
  "parse_errors_only (console st) (console (snd (handle_line parse P st line)))"
proof (cases "prefix (js ''data: '') line \<and> parse (drop 6 line) = None")
  case True
  then have "console (snd (handle_line parse P st line)) = console st @ replicate 1 SSE_parse_error"
    by (simp add: handle_line_def)
  then show ?thesis unfolding parse_errors_only_def by blast
next
  case False
  then have "console (snd (handle_line parse P st line)) = console st"
    by (auto simp add: handle_line_def Let_def dispatch_console split: option.splits)
  then show ?thesis by (simp add: parse_errors_only_refl)
qed

lemma for_lines_parse_errors:
  "parse_errors_only (console st) (console (snd (for_lines (handle_line parse P) st lines)))"
proof (induction lines arbitrary: st)
  case Nil
  show ?case by (simp add: parse_errors_only_refl)
next
  case (Cons l lines)
  obtain sg s where h: "handle_line parse P st l = (sg, s)" by (cases "handle_line parse P st l")
  have p: "parse_errors_only (console st) (console s)"
    using handle_line_parse_errors[of st parse P l] h by simp
  show ?case
  proof (cases sg)
    case Next
    with h p Cons[of s] show ?thesis by (auto intro: parse_errors_only_trans)
  qed (use h p in simp_all)
qed

lemma iteration_fst: "fst (iteration h ls v) = fst (for_lines h (ui ls) (batch ls v))"
  by (simp add: iteration_batch split: prod.splits)

lemma iteration_ui: "ui (snd (iteration h ls v)) = snd (for_lines h (ui ls) (batch ls v))"
  by (simp add: iteration_batch split: prod.splits)

lemma iteration_buffer:
  "buffer (snd (iteration h ls v)) = last (split_records (buffer ls @ fst (decode (decoder ls) v)))"
  by (simp add: iteration_batch split: prod.splits)

lemma iteration_decoder: "decoder (snd (iteration h ls v)) = snd (decode (decoder ls) v)"
  by (simp add: iteration_batch split: prod.splits)

lemma iteration_parse_errors:
  "parse_errors_only (console (ui ls)) (console (ui (snd (iteration (handle_line parse P) ls v))))"
  by (simp add: iteration_ui for_lines_parse_errors)

lemma after_chunks_parse_errors:
  "after_chunks (handle_line parse P) ls reads = Some ls1
     \<Longrightarrow> parse_errors_only (console (ui ls)) (console (ui ls1))"
proof (induction "handle_line parse P" ls reads rule: after_chunks.induct)
  case (1 ls)
  then show ?case by (simp add: parse_errors_only_refl)
next
  case (2 ls e rest)
  then show ?case by simp
next
  case (3 ls v rest)
  obtain x ls' where it: "iteration (handle_line parse P) ls v = (x, ls')"
    by (cases "iteration (handle_line parse P) ls v")
  with 3(2) have x: "x = None" and a: "after_chunks (handle_line parse P) ls' rest = Some ls1"
    by (auto split: option.splits)
  have "parse_errors_only (console (ui ls)) (console (ui ls'))"
    using iteration_parse_errors[of ls parse P v] it by simp
  moreover have "parse_errors_only (console (ui ls')) (console (ui ls1))"
    using 3(1)[OF it[symmetric, unfolded x] refl a] .
  ultimately show ?case by (rule parse_errors_only_trans)
qed

lemma read_loop_read_throws:
  assumes "after_chunks h ls0 reads = Some ls"
  shows "read_loop h ls0 (reads @ ReadThrows e # rest)
           = (Some e, ls\<lparr>reader := (reader ls0)\<lparr>seen := Read_rejected\<rparr>\<rparr>)"
  using after_chunks_read_loop[OF assms, of "ReadThrows e # rest"] after_chunks_reader[OF assms]
  by simp

lemma read_loop_end:
  assumes "after_chunks h ls0 reads = Some ls"
  shows "read_loop h ls0 reads = (None, ls\<lparr>reader := (reader ls0)\<lparr>seen := End_reported\<rparr>\<rparr>)"
  using after_chunks_read_loop[OF assms, of "[]"] after_chunks_reader[OF assms]
  by simp

lemma dispatch_extends: "prefix (outputs st) (outputs (dispatch event st))"
  by (simp add: dispatch_def split: option.splits)

lemma handle_line_extends: "prefix (outputs st) (outputs (snd (handle_line parse P st line)))"
  by (simp add: handle_line_def Let_def dispatch_extends split: option.splits)

lemma for_lines_extends:
  "prefix (outputs st) (outputs (snd (for_lines (handle_line parse P) st lines)))"
proof (induction lines arbitrary: st)
  case Nil
  show ?case by simp
next
  case (Cons l lines)
  obtain sg s where h: "handle_line parse P st l = (sg, s)" by (cases "handle_line parse P st l")
  have p: "prefix (outputs st) (outputs s)" using handle_line_extends[of st parse P l] h by simp
  show ?case
  proof (cases sg)
    case Next
    with h p Cons[of s] show ?thesis by (auto intro: prefix_order.trans)
  qed (use h p in simp_all)
qed

lemma iteration_extends:
  "prefix (outputs (ui ls)) (outputs (ui (snd (iteration (handle_line parse P) ls v))))"
  by (simp add: iteration_batch for_lines_extends split: prod.splits)
     (metis for_lines_extends snd_conv)

lemma read_loop_extends:
  "prefix (outputs (ui ls)) (outputs (ui (snd (read_loop (handle_line parse P) ls reads))))"
proof (induction "handle_line parse P" ls reads rule: read_loop.induct)
  case (3 ls v rest)
  obtain x ls' where it: "iteration (handle_line parse P) ls v = (x, ls')"
    by (cases "iteration (handle_line parse P) ls v")
  have p: "prefix (outputs (ui ls)) (outputs (ui ls'))"
    using iteration_extends[of ls parse P v] it by simp
  show ?case
  proof (cases x)
    case None
    with 3 it p show ?thesis by (auto intro: prefix_order.trans)
  next
    case (Some e)
    with it p show ?thesis by simp
  qed
qed simp_all

lemma read_loop_locked: "locked (reader (snd (read_loop h ls reads))) = locked (reader ls)"
proof (induction h ls reads rule: read_loop.induct)
  case (3 h ls v rest)
  obtain x ls' where it: "iteration h ls v = (x, ls')" by (cases "iteration h ls v")
  have r: "reader ls' = reader ls" using iteration_reader[of h ls v] it by simp
  show ?case
  proof (cases x)
    case None
    with 3 it r show ?thesis by simp
  next
    case (Some e)
    with it r show ?thesis by simp
  qed
qed simp_all

lemma read_loop_iteration_throws:
  assumes "after_chunks h ls0 reads = Some ls" and "fst (iteration h ls v) = Some e"
  shows "read_loop h ls0 (reads @ Chunk v # rest) = (Some e, snd (iteration h ls v))"
  using after_chunks_read_loop[OF assms(1), of "Chunk v # rest"] assms(2)
  by (cases "iteration h ls v") simp

lemma enter_loop_locked:
  "read_loop h (enter_loop st) reads = (x, ls) \<Longrightarrow> locked (reader ls)"
  using read_loop_locked[of h "enter_loop st" reads] by (simp add: enter_loop_def)

lemma try_block_locked:
  "try_block parse P st response = (x, st', Some rd) \<Longrightarrow> locked rd"
  by (auto simp add: try_block_def split: fetch_result.splits option.splits prod.splits
      dest: enter_loop_locked)

lemma vp_try_block_locked:
  "vp_try_block parse numeric st response = (x, st', Some rd) \<Longrightarrow> locked rd"
  by (auto simp add: vp_try_block_def split: fetch_result.splits option.splits prod.splits if_splits
      dest: enter_loop_locked)

subsection \<open>Joining chunks\<close>

text \<open>
  Delivering two chunks one after the other and delivering their concatenation hand the
  same records to the \<open>for\<close> loop, in the same order but in one batch instead of two. When
  no record but the last of the joint batch makes the loop body signal \<open>break\<close>, both lead
  to the same thrown error, component state and reader.
\<close>

lemma for_lines_append_no_break:
  assumes "\<And>s l. l \<in> set xs \<Longrightarrow> fst (h s l) \<noteq> Break"
  shows "for_lines h st (xs @ ys) =
     (case for_lines h st xs of (None, st') \<Rightarrow> for_lines h st' ys | (Some e, st') \<Rightarrow> (Some e, st'))"
  using assms
proof (induction xs arbitrary: st)
  case Nil
  show ?case by simp
next
  case (Cons x xs)
  obtain sg s where h: "h st x = (sg, s)" by (cases "h st x")
  with Cons.prems[of x st] have nb: "sg \<noteq> Break" by simp
  have ih: "for_lines h s (xs @ ys) =
     (case for_lines h s xs of (None, st') \<Rightarrow> for_lines h st' ys | (Some e, st') \<Rightarrow> (Some e, st'))"
    by (rule Cons.IH) (simp add: Cons.prems)
  from h nb ih show ?case by (cases sg) simp_all
qed

lemma batch_append:
  "batch ls (a @ b) = batch ls a @ batch (snd (iteration h ls a)) b"
proof -
  obtain ta d1 where da: "decode (decoder ls) a = (ta, d1)" by (cases "decode (decoder ls) a")
  obtain tb d2 where db: "decode d1 b = (tb, d2)" by (cases "decode d1 b")
  have dab: "decode (decoder ls) (a @ b) = (ta @ tb, d2)"
    by (simp add: decode_append da db)
  have "split_records ((buffer ls @ ta) @ tb)
      = butlast (split_records (buffer ls @ ta)) @ split_records (last (split_records (buffer ls @ ta)) @ tb)"
    by (rule split_records_append)
  then show ?thesis
    by (simp add: batch_def pop_def dab da db iteration_buffer iteration_decoder butlast_append)
qed

lemma iteration_eq:
  "iteration h ls v =
     (fst (for_lines h (ui ls) (batch ls v)),
      ls\<lparr>buffer := last (split_records (buffer ls @ fst (decode (decoder ls) v))),
         decoder := snd (decode (decoder ls) v),
         ui := snd (for_lines h (ui ls) (batch ls v))\<rparr>)"
  by (simp add: iteration_batch split: prod.splits)

text \<open>The loop state after the chunks \<open>a\<close> and \<open>b\<close>, apart from the component state.\<close>

lemma iteration_append_state:
  "(snd (iteration h ls (a @ b)))\<lparr>ui := st\<rparr> = (snd (iteration h (snd (iteration h ls a)) b))\<lparr>ui := st\<rparr>"
proof -
  obtain ta d1 where da: "decode (decoder ls) a = (ta, d1)" by (cases "decode (decoder ls) a")
  obtain tb d2 where db: "decode d1 b = (tb, d2)" by (cases "decode d1 b")
  have dab: "decode (decoder ls) (a @ b) = (ta @ tb, d2)"
    by (simp add: decode_append da db)
  have sp: "split_records ((buffer ls @ ta) @ tb)
      = butlast (split_records (buffer ls @ ta)) @ split_records (last (split_records (buffer ls @ ta)) @ tb)"
    by (rule split_records_append)
  have bl: "last (split_records (buffer ls @ ta @ tb))
      = last (split_records (last (split_records (buffer ls @ ta)) @ tb))"
    using sp by simp
  show ?thesis
    by (simp add: iteration_eq [of h ls "a @ b"] iteration_eq [of h "snd (iteration h ls a)" b]
        iteration_buffer iteration_decoder dab da db bl)
       (simp add: iteration_eq [of h ls a])
qed

lemma loop_state_eqI:
  "a\<lparr>ui := st\<rparr> = b\<lparr>ui := st\<rparr> \<Longrightarrow> ui a = ui b \<Longrightarrow> a = b"
  by (cases a; cases b) simp

lemma iteration_append:
  assumes "\<And>s l. l \<in> set (batch ls a) \<Longrightarrow> fst (h s l) \<noteq> Break"
  shows "fst (iteration h ls a) = None \<Longrightarrow> iteration h ls (a @ b) = iteration h (snd (iteration h ls a)) b"
    and "fst (iteration h ls a) = Some e \<Longrightarrow>
           fst (iteration h ls (a @ b)) = Some e
           \<and> ui (snd (iteration h ls (a @ b))) = ui (snd (iteration h ls a))"
proof -
  obtain x st1 where fa: "for_lines h (ui ls) (batch ls a) = (x, st1)"
    by (cases "for_lines h (ui ls) (batch ls a)")
  let ?ls1 = "snd (iteration h ls a)"
  have u1: "ui ?ls1 = st1" and x1: "fst (iteration h ls a) = x"
    by (simp_all add: iteration_ui iteration_fst fa)
  have fab: "for_lines h (ui ls) (batch ls (a @ b)) =
     (case x of None \<Rightarrow> for_lines h st1 (batch ?ls1 b) | Some e \<Rightarrow> (Some e, st1))"
    using batch_append[where ls = ls and a = a and b = b and h = h]
    by (simp add: for_lines_append_no_break[OF assms] fa split: option.splits)
  {
    assume "fst (iteration h ls a) = None"
    then have x: "x = None" using x1 by simp
    have f: "fst (iteration h ls (a @ b)) = fst (iteration h ?ls1 b)"
      and u: "ui (snd (iteration h ls (a @ b))) = ui (snd (iteration h ?ls1 b))"
      by (simp_all add: iteration_fst iteration_ui fab x fa)
    have "snd (iteration h ls (a @ b)) = snd (iteration h ?ls1 b)"
      using iteration_append_state[where h = h and ls = ls and a = a and b = b and st = st1] u
      by (rule loop_state_eqI)
    with f show "iteration h ls (a @ b) = iteration h ?ls1 b"
      by (simp add: prod_eq_iff)
  }
  {
    assume "fst (iteration h ls a) = Some e"
    then have x: "x = Some e" using x1 by simp
    show "fst (iteration h ls (a @ b)) = Some e
           \<and> ui (snd (iteration h ls (a @ b))) = ui (snd (iteration h ls a))"
      by (simp add: iteration_fst iteration_ui fab x fa)
  }
qed

lemma iteration_append_nothing:
  assumes "batch (snd (iteration h ls a)) b = []"
  shows "fst (iteration h ls (a @ b)) = fst (iteration h ls a)"
    and "ui (snd (iteration h ls (a @ b))) = ui (snd (iteration h ls a))"
    and "iteration h (snd (iteration h ls a)) b
           = (None, (snd (iteration h ls (a @ b)))\<lparr>ui := ui (snd (iteration h ls a))\<rparr>)"
proof -
  have b: "batch ls (a @ b) = batch ls a"
    using batch_append[where ls = ls and a = a and b = b and h = h] assms by simp
  show f: "fst (iteration h ls (a @ b)) = fst (iteration h ls a)"
    and u: "ui (snd (iteration h ls (a @ b))) = ui (snd (iteration h ls a))"
    by (simp_all add: iteration_fst iteration_ui b)
  let ?ls1 = "snd (iteration h ls a)"
  have f2: "fst (iteration h ?ls1 b) = None" and u2: "ui (snd (iteration h ?ls1 b)) = ui ?ls1"
    by (simp_all add: iteration_fst iteration_ui assms)
  have "snd (iteration h ?ls1 b) = (snd (iteration h ls (a @ b)))\<lparr>ui := ui ?ls1\<rparr>"
  proof (rule loop_state_eqI[where st = "ui ?ls1"])
    show "(snd (iteration h ?ls1 b))\<lparr>ui := ui ?ls1\<rparr>
        = ((snd (iteration h ls (a @ b)))\<lparr>ui := ui ?ls1\<rparr>)\<lparr>ui := ui ?ls1\<rparr>"
      using iteration_append_state[where h = h and ls = ls and a = a and b = b and st = "ui ?ls1"]
      by simp
    show "ui (snd (iteration h ?ls1 b)) = ui ((snd (iteration h ls (a @ b)))\<lparr>ui := ui ?ls1\<rparr>)"
      by (simp add: u2)
  qed
  with f2 show "iteration h ?ls1 b = (None, (snd (iteration h ls (a @ b)))\<lparr>ui := ui ?ls1\<rparr>)"
    by (simp add: prod_eq_iff)
qed

lemma set_butlast_append: "ys \<noteq> [] \<Longrightarrow> set xs \<subseteq> set (butlast (xs @ ys))"
  by (simp add: butlast_append)

lemma set_butlast_prefix: "set (butlast xs) \<subseteq> set (butlast (xs @ ys))"
  by (cases "ys = []") (auto simp add: butlast_append dest: in_set_butlastD)

lemma read_loop_merge:
  assumes "\<And>s l. l \<in> set (butlast (batch ls (a @ b))) \<Longrightarrow> fst (h s l) \<noteq> Break"
  shows "observed (read_loop h ls (Chunk a # Chunk b # rest))
       = observed (read_loop h ls (Chunk (a @ b) # rest))"
proof (cases "batch (snd (iteration h ls a)) b = []")
  case True
  note n = iteration_append_nothing[OF True]
  obtain x ls1 where ia: "iteration h ls a = (x, ls1)" by (cases "iteration h ls a")
  obtain y ls2 where iab: "iteration h ls (a @ b) = (y, ls2)" by (cases "iteration h ls (a @ b)")
  from n ia iab have xy: "y = x" and u: "ui ls2 = ui ls1" and ib: "iteration h ls1 b = (None, ls2\<lparr>ui := ui ls1\<rparr>)"
    by simp_all
  have l2: "ls2\<lparr>ui := ui ls1\<rparr> = ls2" using u by (cases ls2) simp
  have r: "reader ls1 = reader ls" "reader ls2 = reader ls"
    using iteration_reader[of h ls a] iteration_reader[of h ls "a @ b"] ia iab by simp_all
  show ?thesis
  proof (cases x)
    case None
    with ia iab xy ib l2 show ?thesis by simp
  next
    case (Some e)
    with ia iab xy u r show ?thesis by (simp add: observed_def)
  qed
next
  case False
  have sub: "set (batch ls a) \<subseteq> set (butlast (batch ls (a @ b)))"
    using batch_append[where ls = ls and a = a and b = b and h = h]
      set_butlast_append[OF False, where xs = "batch ls a"] by simp
  have nb: "\<And>s l. l \<in> set (batch ls a) \<Longrightarrow> fst (h s l) \<noteq> Break"
    using assms sub by blast
  show ?thesis
  proof (cases "fst (iteration h ls a)")
    case None
    then obtain ls1 where ia: "iteration h ls a = (None, ls1)" by (cases "iteration h ls a") simp
    from iteration_append(1)[where h = h and ls = ls and a = a and b = b, OF nb None] ia
    have "iteration h ls (a @ b) = iteration h ls1 b" by simp
    with ia show ?thesis by simp
  next
    case (Some e)
    then obtain ls1 where ia: "iteration h ls a = (Some e, ls1)" by (cases "iteration h ls a") simp
    obtain y ls2 where iab: "iteration h ls (a @ b) = (y, ls2)" by (cases "iteration h ls (a @ b)")
    from iteration_append(2)[where h = h and ls = ls and a = a and b = b and e = e, OF nb Some] ia iab
    have "y = Some e" "ui ls2 = ui ls1" by simp_all
    moreover have "reader ls1 = reader ls" "reader ls2 = reader ls"
      using iteration_reader[of h ls a] iteration_reader[of h ls "a @ b"] ia iab by simp_all
    ultimately show ?thesis using ia iab by (simp add: observed_def)
  qed
qed

lemma read_loop_concat_chunks:
  assumes "\<And>s l. l \<in> set (butlast (batch ls (c @ concat cs))) \<Longrightarrow> fst (h s l) \<noteq> Break"
  shows "observed (read_loop h ls (Chunk c # map Chunk cs @ tail))
       = observed (read_loop h ls (Chunk (c @ concat cs) # tail))"
  using assms
proof (induction cs arbitrary: c)
  case Nil
  show ?case by simp
next
  case (Cons c' cs)
  have sub: "set (butlast (batch ls (c @ c'))) \<subseteq> set (butlast (batch ls (c @ concat (c' # cs))))"
    using batch_append[where ls = ls and a = "c @ c'" and b = "concat cs" and h = h]
      set_butlast_prefix[where xs = "batch ls (c @ c')"
        and ys = "batch (snd (iteration h ls (c @ c'))) (concat cs)"]
    by simp
  have "observed (read_loop h ls (Chunk c # map Chunk (c' # cs) @ tail))
      = observed (read_loop h ls (Chunk (c @ c') # map Chunk cs @ tail))"
    using read_loop_merge[where h = h and ls = ls and a = c and b = c' and rest = "map Chunk cs @ tail"]
      Cons.prems sub by (simp add: subset_iff)
  also have "\<dots> = observed (read_loop h ls (Chunk ((c @ c') @ concat cs) # tail))"
    by (rule Cons.IH) (use Cons.prems in simp)
  finally show ?case by simp
qed

lemma iteration_empty_chunk: "iteration h (enter_loop st) [] = (None, enter_loop st)"
  by (simp add: iteration_def enter_loop_def pop_def)

lemma read_loop_chunking:
  assumes "\<And>s l. l \<in> set (butlast (batch (enter_loop st) (concat cs))) \<Longrightarrow> fst (h s l) \<noteq> Break"
  shows "observed (read_loop h (enter_loop st) (map Chunk cs @ tail))
       = observed (read_loop h (enter_loop st) (Chunk (concat cs) # tail))"
proof (cases cs)
  case Nil
  then show ?thesis by (simp add: iteration_empty_chunk)
next
  case (Cons c cs')
  then show ?thesis
    using read_loop_concat_chunks[where h = h and ls = "enter_loop st" and c = c and cs = cs' and tail = tail]
      assms
    by simp
qed

text \<open>
  \<open>handleAnalyze\<close> never leaves its \<open>for\<close> loop by \<open>break\<close>: what it does with a stream does
  not depend on how the stream is cut into chunks.
\<close>

lemma vp_handle_line_no_break: "fst (vp_handle_line parse numeric s l) \<noteq> Break"
  by (simp add: vp_handle_line_def split: option.splits)

lemma handleAnalyze_chunk_independent:
  "handleAnalyze parse numeric st (Response is_ok stxt (Some (map Chunk cs @ tail)))
     = handleAnalyze parse numeric st (Response is_ok stxt (Some (Chunk (concat cs) # tail)))"
proof -
  let ?h = "vp_handle_line parse numeric"
  let ?l = "enter_loop (vp_start_run st)"
  obtain x ls where r1: "read_loop ?h ?l (map Chunk cs @ tail) = (x, ls)"
    by (cases "read_loop ?h ?l (map Chunk cs @ tail)")
  obtain y ls' where r2: "read_loop ?h ?l (Chunk (concat cs) # tail) = (y, ls')"
    by (cases "read_loop ?h ?l (Chunk (concat cs) # tail)")
  have "observed (read_loop ?h ?l (map Chunk cs @ tail)) = observed (read_loop ?h ?l (Chunk (concat cs) # tail))"
    by (rule read_loop_chunking) (rule vp_handle_line_no_break)
  then have "observed (x, ls) = observed (y, ls')"
    by (simp only: r1 r2)
  then have "x = y" "ui ls = ui ls'" "reader ls = reader ls'" by (simp_all add: observed_def)
  with r1 r2 show ?thesis
    by (simp add: handleAnalyze_def vp_try_block_def split: option.splits)
qed

text \<open>
  \<open>runAnalysis\<close> leaves its \<open>for\<close> loop by \<open>break\<close> exactly on a \<open>done\<close> record. When no
  complete record of the stream follows a \<open>done\<close> record, what it does with the stream
  does not depend on the chunks either.
\<close>

lemma handle_line_break: "fst (handle_line parse P st l) = Break \<longleftrightarrow> is_done_line parse l"
  by (auto simp add: handle_line_def is_done_line_def Let_def split: option.splits)

lemma runAnalysis_chunk_independent_done_last:
  assumes "\<And>l. l \<in> set (butlast (batch (enter_loop (start_run P st)) (concat cs)))
             \<Longrightarrow> \<not> is_done_line parse l"
  shows "runAnalysis parse P st (Response is_ok stxt (Some (map Chunk cs @ tail)))
     = runAnalysis parse P st (Response is_ok stxt (Some (Chunk (concat cs) # tail)))"
proof -
  let ?h = "handle_line parse P"
  let ?l = "enter_loop (start_run P st)"
  obtain x ls where r1: "read_loop ?h ?l (map Chunk cs @ tail) = (x, ls)"
    by (cases "read_loop ?h ?l (map Chunk cs @ tail)")
  obtain y ls' where r2: "read_loop ?h ?l (Chunk (concat cs) # tail) = (y, ls')"
    by (cases "read_loop ?h ?l (Chunk (concat cs) # tail)")
  have "observed (read_loop ?h ?l (map Chunk cs @ tail)) = observed (read_loop ?h ?l (Chunk (concat cs) # tail))"
    by (rule read_loop_chunking) (simp add: handle_line_break assms)
  then have "observed (x, ls) = observed (y, ls')"
    by (simp only: r1 r2)
  then have "x = y" "ui ls = ui ls'" "reader ls = reader ls'" by (simp_all add: observed_def)
  with r1 r2 show ?thesis
    by (simp add: runAnalysis_def try_block_def)
qed

subsection \<open>A record that is skipped\<close>

lemma shown_eq_console: "shown st = shown st' \<Longrightarrow> st' = st\<lparr>console := console st'\<rparr>"
  by (cases st; cases st') (simp add: shown_def)

lemma vp_shown_eq_console: "vp_shown st = vp_shown st' \<Longrightarrow> st' = st\<lparr>vp_console := vp_console st'\<rparr>"
  by (cases st; cases st') (simp add: vp_shown_def)

lemma for_lines_shown:
  assumes "shown st = shown st'"
  shows "fst (for_lines (handle_line parse P) st lines) = fst (for_lines (handle_line parse P) st' lines)
       \<and> shown (snd (for_lines (handle_line parse P) st lines))
         = shown (snd (for_lines (handle_line parse P) st' lines))"
  using for_lines_console[where parse = parse and P = P and st = st and c = "console st'" and lines = lines]
    shown_eq_console[OF assms] by simp

lemma vp_for_lines_shown:
  assumes "vp_shown st = vp_shown st'"
  shows "fst (for_lines (vp_handle_line parse numeric) st lines)
           = fst (for_lines (vp_handle_line parse numeric) st' lines)
       \<and> vp_shown (snd (for_lines (vp_handle_line parse numeric) st lines))
         = vp_shown (snd (for_lines (vp_handle_line parse numeric) st' lines))"
  using vp_for_lines_console[where parse = parse and numeric = numeric and st = st
      and c = "vp_console st'" and lines = lines] vp_shown_eq_console[OF assms]
  by simp

lemma read_loop_view:
  assumes step: "\<And>s s' lines. view s = view s' \<Longrightarrow>
       fst (for_lines h s lines) = fst (for_lines h s' lines)
       \<and> view (snd (for_lines h s lines)) = view (snd (for_lines h s' lines))"
    and "buffer a = buffer b" and "decoder a = decoder b" and "reader a = reader b"
    and "view (ui a) = view (ui b)"
  shows "fst (read_loop h a reads) = fst (read_loop h b reads)
       \<and> view (ui (snd (read_loop h a reads))) = view (ui (snd (read_loop h b reads)))
       \<and> reader (snd (read_loop h a reads)) = reader (snd (read_loop h b reads))"
  using assms(2-5)
proof (induction reads arbitrary: a b)
  case Nil
  then show ?case by simp
next
  case (Cons r reads)
  show ?case
  proof (cases r)
    case (ReadThrows e)
    with Cons.prems show ?thesis by simp
  next
    case (Chunk v)
    have bt: "batch a v = batch b v" using Cons.prems by (simp add: batch_def)
    note st = step[OF Cons.prems(4), of "batch a v"]
    obtain x a' where ia: "iteration h a v = (x, a')" by (cases "iteration h a v")
    obtain y b' where ib: "iteration h b v = (y, b')" by (cases "iteration h b v")
    have xy: "x = y" using st ia ib iteration_fst[of h a v] iteration_fst[of h b v] bt by simp
    have rel: "buffer a' = buffer b'" "decoder a' = decoder b'" "reader a' = reader b'"
      "view (ui a') = view (ui b')"
      using st ia ib bt Cons.prems iteration_buffer[of h a v] iteration_buffer[of h b v]
        iteration_decoder[of h a v] iteration_decoder[of h b v]
        iteration_reader[of h a v] iteration_reader[of h b v]
        iteration_ui[of h a v] iteration_ui[of h b v]
      by simp_all
    show ?thesis
    proof (cases x)
      case None
      then have "y = None" using xy by simp
      with None Chunk ia ib Cons.IH[OF rel] show ?thesis by simp
    next
      case (Some e)
      then have "y = Some e" using xy by simp
      with Some Chunk ia ib rel show ?thesis by simp
    qed
  qed
qed

lemma skip_in_stream:
  assumes step: "\<And>s s' lines. view s = view s' \<Longrightarrow>
       fst (for_lines h s lines) = fst (for_lines h s' lines)
       \<and> view (snd (for_lines h s lines)) = view (snd (for_lines h s' lines))"
    and skip: "\<And>s. h s bad = (Next, upd s)"
    and upd: "\<And>s. view (upd s) = view s"
    and reach: "after_chunks h ls0 reads = Some ls"
    and v: "split_records (buffer ls @ fst (decode (decoder ls) v)) = pre @ bad # post @ [left]"
    and w: "split_records (buffer ls @ fst (decode (decoder ls) w)) = pre @ post @ [left]"
    and d: "snd (decode (decoder ls) w) = snd (decode (decoder ls) v)"
  shows "fst (read_loop h ls0 (reads @ Chunk v # rest)) = fst (read_loop h ls0 (reads @ Chunk w # rest))
       \<and> view (ui (snd (read_loop h ls0 (reads @ Chunk v # rest))))
         = view (ui (snd (read_loop h ls0 (reads @ Chunk w # rest))))
       \<and> reader (snd (read_loop h ls0 (reads @ Chunk v # rest)))
         = reader (snd (read_loop h ls0 (reads @ Chunk w # rest)))"
proof -
  have bv: "batch ls v = pre @ bad # post" using v by (simp add: batch_def pop_def butlast_append)
  have bw: "batch ls w = pre @ post" using w by (simp add: batch_def pop_def butlast_append)
  have lv: "last (split_records (buffer ls @ fst (decode (decoder ls) v))) = left" using v by simp
  have lw: "last (split_records (buffer ls @ fst (decode (decoder ls) w))) = left" using w by simp
  have sk: "fst (for_lines h (ui ls) (pre @ bad # post)) = fst (for_lines h (ui ls) (pre @ post))
       \<and> view (snd (for_lines h (ui ls) (pre @ bad # post))) = view (snd (for_lines h (ui ls) (pre @ post)))"
  proof (rule skip_in_batch[of h bad upd view "ui ls" pre post, OF skip])
    fix s lines
    show "fst (for_lines h (upd s) lines) = fst (for_lines h s lines)
        \<and> view (snd (for_lines h (upd s) lines)) = view (snd (for_lines h s lines))"
      using step[OF upd[of s], of lines] .
  qed
  obtain x a where iv: "iteration h ls v = (x, a)" by (cases "iteration h ls v")
  obtain y b where iw: "iteration h ls w = (y, b)" by (cases "iteration h ls w")
  have xy: "x = y" using sk iv iw iteration_fst[of h ls v] iteration_fst[of h ls w] bv bw by simp
  have rel: "buffer a = buffer b" "decoder a = decoder b" "reader a = reader b" "view (ui a) = view (ui b)"
    using sk iv iw bv bw lv lw d iteration_buffer[of h ls v] iteration_buffer[of h ls w]
      iteration_decoder[of h ls v] iteration_decoder[of h ls w]
      iteration_reader[of h ls v] iteration_reader[of h ls w]
      iteration_ui[of h ls v] iteration_ui[of h ls w]
    by simp_all
  have rv: "read_loop h ls0 (reads @ Chunk v # rest) = read_loop h ls (Chunk v # rest)"
    using reach by (rule after_chunks_read_loop)
  have rw: "read_loop h ls0 (reads @ Chunk w # rest) = read_loop h ls (Chunk w # rest)"
    using reach by (rule after_chunks_read_loop)
  show ?thesis
  proof (cases x)
    case None
    then have "y = None" using xy by simp
    with None iv iw rv rw read_loop_view[where h = h and view = view and a = a and b = b and reads = rest, OF step rel]
    show ?thesis by simp
  next
    case (Some e)
    then have "y = Some e" using xy by simp
    with Some iv iw rv rw rel show ?thesis by simp
  qed
qed

lemma catch_finally_shown:
  "shown st = shown st' \<Longrightarrow> shown (finally_block (catch_block x st)) = shown (finally_block (catch_block x st'))"
  by (simp add: shown_def finally_block_def catch_block_def split: option.splits)

lemma vp_catch_shown:
  "vp_shown st = vp_shown st' \<Longrightarrow> vp_shown (vp_catch_block x st) = vp_shown (vp_catch_block x st')"
  by (simp add: vp_shown_def vp_catch_block_def split: option.splits)

lemma try_block_Response:
  "try_block parse P st (Response is_ok stxt (Some reads)) =
     (fst (read_loop (handle_line parse P) (enter_loop st) reads),
      ui (snd (read_loop (handle_line parse P) (enter_loop st) reads)),
      Some (reader (snd (read_loop (handle_line parse P) (enter_loop st) reads))))"
  by (simp add: try_block_def split: prod.splits)

lemma runAnalysis_Response:
  "runAnalysis parse P st (Response is_ok stxt (Some reads)) =
     (finally_block (catch_block (fst (read_loop (handle_line parse P) (enter_loop (start_run P st)) reads))
        (ui (snd (read_loop (handle_line parse P) (enter_loop (start_run P st)) reads)))),
      Some (reader (snd (read_loop (handle_line parse P) (enter_loop (start_run P st)) reads))))"
  by (simp add: runAnalysis_def try_block_Response)

lemma vp_try_block_Response:
  "vp_try_block parse numeric st (Response True stxt (Some reads)) =
     (fst (read_loop (vp_handle_line parse numeric) (enter_loop st) reads),
      (case fst (read_loop (vp_handle_line parse numeric) (enter_loop st) reads) of
         None \<Rightarrow> (ui (snd (read_loop (vp_handle_line parse numeric) (enter_loop st) reads)))
                   \<lparr>status := complete, vp_activeAgent := None\<rparr>
       | Some e \<Rightarrow> ui (snd (read_loop (vp_handle_line parse numeric) (enter_loop st) reads))),
      Some (reader (snd (read_loop (vp_handle_line parse numeric) (enter_loop st) reads))))"
  by (simp add: vp_try_block_def split: prod.splits option.splits)

lemma handleAnalyze_eq:
  "handleAnalyze parse numeric st response =
     (if screenshot st = None \<or> productName st = [] \<or> productPrice st = [] then
        (st\<lparr>vp_error := Some (js ''Please fill in all required fields'')\<rparr>, None)
      else (vp_catch_block (fst (vp_try_block parse numeric (vp_start_run st) response))
              (fst (snd (vp_try_block parse numeric (vp_start_run st) response))),
            snd (snd (vp_try_block parse numeric (vp_start_run st) response))))"
  by (simp add: handleAnalyze_def split: prod.splits)

lemma malformed_record_in_batch:
  assumes "prefix (js ''data: '') bad" and "parse (drop 6 bad) = None"
  shows "handle_line parse P st bad = (Next, st\<lparr>console := console st @ [SSE_parse_error]\<rparr>)
    \<and> vp_handle_line parse numeric vst bad = (Next, vst\<lparr>vp_console := vp_console vst @ [SSE_parse_error]\<rparr>)
    \<and> fst (for_lines (handle_line parse P) st (pre @ bad # post))
        = fst (for_lines (handle_line parse P) st (pre @ post))
    \<and> shown (snd (for_lines (handle_line parse P) st (pre @ bad # post)))
        = shown (snd (for_lines (handle_line parse P) st (pre @ post)))
    \<and> fst (for_lines (vp_handle_line parse numeric) vst (pre @ bad # post))
        = fst (for_lines (vp_handle_line parse numeric) vst (pre @ post))
    \<and> vp_shown (snd (for_lines (vp_handle_line parse numeric) vst (pre @ bad # post)))
        = vp_shown (snd (for_lines (vp_handle_line parse numeric) vst (pre @ post)))"
proof -
  have h: "handle_line parse P s bad = (Next, s\<lparr>console := console s @ [SSE_parse_error]\<rparr>)" for s
    using assms by (simp add: handle_line_def)
  have v: "vp_handle_line parse numeric s bad = (Next, s\<lparr>vp_console := vp_console s @ [SSE_parse_error]\<rparr>)" for s
    using assms by (simp add: vp_handle_line_def)
  note a = skip_in_batch[of "handle_line parse P" bad "\<lambda>s. s\<lparr>console := console s @ [SSE_parse_error]\<rparr>" shown st pre post,
      OF h for_lines_console]
  note b = skip_in_batch[of "vp_handle_line parse numeric" bad
      "\<lambda>s. s\<lparr>vp_console := vp_console s @ [SSE_parse_error]\<rparr>" vp_shown vst pre post,
      OF v vp_for_lines_console]
  from h v a b show ?thesis by simp
qed

lemma malformed_record_in_stream:
  assumes "prefix (js ''data: '') bad" and "parse (drop 6 bad) = None"
  shows
    "(after_chunks (handle_line parse P) (enter_loop (start_run P init)) reads = Some ls
       \<longrightarrow> split_records (buffer ls @ fst (decode (decoder ls) v)) = pre @ bad # post @ [left]
       \<longrightarrow> split_records (buffer ls @ fst (decode (decoder ls) w)) = pre @ post @ [left]
       \<longrightarrow> snd (decode (decoder ls) w) = snd (decode (decoder ls) v)
       \<longrightarrow> fst (try_block parse P (start_run P init) (Response is_ok stxt (Some (reads @ Chunk v # rest))))
             = fst (try_block parse P (start_run P init) (Response is_ok stxt (Some (reads @ Chunk w # rest))))
         \<and> shown (fst (runAnalysis parse P init (Response is_ok stxt (Some (reads @ Chunk v # rest)))))
             = shown (fst (runAnalysis parse P init (Response is_ok stxt (Some (reads @ Chunk w # rest))))))
    \<and> (after_chunks (vp_handle_line parse numeric) (enter_loop (vp_start_run vinit)) reads = Some vls
       \<longrightarrow> split_records (buffer vls @ fst (decode (decoder vls) v)) = pre @ bad # post @ [left]
       \<longrightarrow> split_records (buffer vls @ fst (decode (decoder vls) w)) = pre @ post @ [left]
       \<longrightarrow> snd (decode (decoder vls) w) = snd (decode (decoder vls) v)
       \<longrightarrow> vp_shown (fst (handleAnalyze parse numeric vinit (Response is_ok stxt (Some (reads @ Chunk v # rest)))))
             = vp_shown (fst (handleAnalyze parse numeric vinit (Response is_ok stxt (Some (reads @ Chunk w # rest))))))"
proof (intro conjI impI)
  have h: "handle_line parse P s bad = (Next, s\<lparr>console := console s @ [SSE_parse_error]\<rparr>)" for s
    using assms by (simp add: handle_line_def)
  have hv: "vp_handle_line parse numeric s bad = (Next, s\<lparr>vp_console := vp_console s @ [SSE_parse_error]\<rparr>)" for s
    using assms by (simp add: vp_handle_line_def)
  {
    assume a: "after_chunks (handle_line parse P) (enter_loop (start_run P init)) reads = Some ls"
      and v: "split_records (buffer ls @ fst (decode (decoder ls) v)) = pre @ bad # post @ [left]"
      and w: "split_records (buffer ls @ fst (decode (decoder ls) w)) = pre @ post @ [left]"
      and d: "snd (decode (decoder ls) w) = snd (decode (decoder ls) v)"
    note r = skip_in_stream[where h = "handle_line parse P" and view = shown
        and upd = "\<lambda>s. s\<lparr>console := console s @ [SSE_parse_error]\<rparr>" and rest = rest,
        OF for_lines_shown h _ a v w d]
    have r': "fst (read_loop (handle_line parse P) (enter_loop (start_run P init)) (reads @ Chunk v # rest))
        = fst (read_loop (handle_line parse P) (enter_loop (start_run P init)) (reads @ Chunk w # rest))
      \<and> shown (ui (snd (read_loop (handle_line parse P) (enter_loop (start_run P init)) (reads @ Chunk v # rest))))
        = shown (ui (snd (read_loop (handle_line parse P) (enter_loop (start_run P init)) (reads @ Chunk w # rest))))"
      using r by (simp add: shown_def)
    show "fst (try_block parse P (start_run P init) (Response is_ok stxt (Some (reads @ Chunk v # rest))))
             = fst (try_block parse P (start_run P init) (Response is_ok stxt (Some (reads @ Chunk w # rest))))"
      using r' by (simp add: try_block_Response)
    show "shown (fst (runAnalysis parse P init (Response is_ok stxt (Some (reads @ Chunk v # rest)))))
             = shown (fst (runAnalysis parse P init (Response is_ok stxt (Some (reads @ Chunk w # rest)))))"
    proof -
      let ?R = "\<lambda>u. read_loop (handle_line parse P) (enter_loop (start_run P init)) (reads @ Chunk u # rest)"
      from r' have x: "fst (?R v) = fst (?R w)" and s: "shown (ui (snd (?R v))) = shown (ui (snd (?R w)))"
        by simp_all
      have "shown (finally_block (catch_block (fst (?R w)) (ui (snd (?R v)))))
          = shown (finally_block (catch_block (fst (?R w)) (ui (snd (?R w)))))"
        using s by (rule catch_finally_shown)
      then show ?thesis by (simp add: runAnalysis_Response x)
    qed
  }
  {
    assume a: "after_chunks (vp_handle_line parse numeric) (enter_loop (vp_start_run vinit)) reads = Some vls"
      and v: "split_records (buffer vls @ fst (decode (decoder vls) v)) = pre @ bad # post @ [left]"
      and w: "split_records (buffer vls @ fst (decode (decoder vls) w)) = pre @ post @ [left]"
      and d: "snd (decode (decoder vls) w) = snd (decode (decoder vls) v)"
    note r = skip_in_stream[where h = "vp_handle_line parse numeric" and view = vp_shown
        and upd = "\<lambda>s. s\<lparr>vp_console := vp_console s @ [SSE_parse_error]\<rparr>" and rest = rest,
        OF vp_for_lines_shown hv _ a v w d]
    have r': "fst (read_loop (vp_handle_line parse numeric) (enter_loop (vp_start_run vinit)) (reads @ Chunk v # rest))
        = fst (read_loop (vp_handle_line parse numeric) (enter_loop (vp_start_run vinit)) (reads @ Chunk w # rest))
      \<and> vp_shown (ui (snd (read_loop (vp_handle_line parse numeric) (enter_loop (vp_start_run vinit)) (reads @ Chunk v # rest))))
        = vp_shown (ui (snd (read_loop (vp_handle_line parse numeric) (enter_loop (vp_start_run vinit)) (reads @ Chunk w # rest))))"
      using r by (simp add: vp_shown_def)
    have c: "vp_shown s = vp_shown s' \<Longrightarrow>
        vp_shown (s\<lparr>status := complete, vp_activeAgent := None\<rparr>) = vp_shown (s'\<lparr>status := complete, vp_activeAgent := None\<rparr>)" for s s'
      by (simp add: vp_shown_def)
    show "vp_shown (fst (handleAnalyze parse numeric vinit (Response is_ok stxt (Some (reads @ Chunk v # rest)))))
             = vp_shown (fst (handleAnalyze parse numeric vinit (Response is_ok stxt (Some (reads @ Chunk w # rest)))))"
    proof (cases is_ok)
      case True
      let ?R = "\<lambda>u. read_loop (vp_handle_line parse numeric) (enter_loop (vp_start_run vinit)) (reads @ Chunk u # rest)"
      from r' have x: "fst (?R v) = fst (?R w)" and s: "vp_shown (ui (snd (?R v))) = vp_shown (ui (snd (?R w)))"
        by simp_all
      have "vp_shown (vp_catch_block (fst (?R v)) (fst (snd (vp_try_block parse numeric (vp_start_run vinit) (Response True stxt (Some (reads @ Chunk v # rest)))))))
          = vp_shown (vp_catch_block (fst (?R v)) (fst (snd (vp_try_block parse numeric (vp_start_run vinit) (Response True stxt (Some (reads @ Chunk w # rest)))))))"
      proof (rule vp_catch_shown)
        show "vp_shown (fst (snd (vp_try_block parse numeric (vp_start_run vinit) (Response True stxt (Some (reads @ Chunk v # rest))))))
          = vp_shown (fst (snd (vp_try_block parse numeric (vp_start_run vinit) (Response True stxt (Some (reads @ Chunk w # rest))))))"
        proof (cases "fst (?R w)")
          case None
          have "vp_shown ((ui (snd (?R v)))\<lparr>status := complete, vp_activeAgent := None\<rparr>)
              = vp_shown ((ui (snd (?R w)))\<lparr>status := complete, vp_activeAgent := None\<rparr>)"
            using s by (rule c)
          then show ?thesis by (simp add: vp_try_block_Response x None)
        next
          case (Some e)
          then show ?thesis using s by (simp add: vp_try_block_Response x)
        qed
      qed
      then show ?thesis
        using True by (simp add: handleAnalyze_eq vp_try_block_Response [where parse = parse] x)
    next
      case False
      then show ?thesis by (simp add: handleAnalyze_eq vp_try_block_def)
    qed
  }
qed

section \<open>The scenarios of the specification\<close>

text \<open>
  A record cut in the middle by a chunk boundary is dispatched once; so is a record whose
  chunk boundary falls inside the two bytes of a UTF-8 sequence; a malformed record
  followed by a valid one gives one diagnostic and one output.
\<close>

lemma example_truncated_chunk:
  \<open>fst (runAnalysis sample_parse crisis_pipeline idle_run
      (Response True [] (Some [Chunk (utf8 ''data: {"agent":"m''),
                               Chunk (utf8 ''onitor","content":"ok"}\<newline>\<newline>'')])))
   = \<lparr>outputs = [\<lparr>out_agent = js ''monitor'', out_content = js ''ok'', thoughtType = None\<rparr>],
      isRunning = False, activeAgent = None, result = (), console = []\<rparr>\<close>
  by code_simp

lemma example_split_inside_utf8_sequence:
  \<open>fst (runAnalysis sample_parse crisis_pipeline idle_run
      (Response True [] (Some [Chunk (utf8 ''data: {"agent":"a","content":"'' @ [0xC3]),
                               Chunk ([0xA9] @ utf8 ''"}\<newline>\<newline>'')])))
   = \<lparr>outputs = [\<lparr>out_agent = js ''a'', out_content = [0xE9], thoughtType = None\<rparr>],
      isRunning = False, activeAgent = None, result = (), console = []\<rparr>\<close>
  by code_simp

lemma example_malformed_then_valid:
  \<open>fst (runAnalysis sample_parse crisis_pipeline idle_run (Response True [] (Some [Chunk bad_chunk])))
   = \<lparr>outputs = [output_ab], isRunning = False, activeAgent = None, result = (),
      console = [SSE_parse_error]\<rparr>\<close>
  by code_simp

section \<open>Records without the data marker\<close>

text \<open>
  C6. A complete record that does not begin with \<open>"data: "\<close> is never dispatched, produces
  no error and never makes the run fail: in both loops the body of the \<open>for\<close> loop leaves
  the whole state as it was (outputs, active agent, result slots, console) and signals
  neither \<open>break\<close> nor a throw, and the \<open>for\<close> loop goes on with the next record.
\<close>

theorem unprefixed_record_skipped:
  assumes "\<not> prefix (js ''data: '') line"
  shows "handle_line parse P st line = (Next, st)
       \<and> vp_handle_line parse numeric vst line = (Next, vst)
       \<and> for_lines (handle_line parse P) st (line # rest) = for_lines (handle_line parse P) st rest
       \<and> for_lines (vp_handle_line parse numeric) vst (line # rest)
           = for_lines (vp_handle_line parse numeric) vst rest"
  using assms by (simp add: handle_line_def vp_handle_line_def)

theorem unprefixed_record_skipped_witness:
  "\<not> prefix (js ''data: '') (js '': keep-alive'')
   \<and> handle_line sample_parse crisis_pipeline idle_run (js '': keep-alive'') = (Next, idle_run)
   \<and> vp_handle_line sample_parse id sample_vp (js '': keep-alive'') = (Next, sample_vp)"
  using unprefixed_record_skipped [of "js '': keep-alive''" sample_parse crisis_pipeline idle_run id sample_vp]
  by (simp add: js_def)

section \<open>Malformed records\<close>

text \<open>
  C4. A record with the data marker whose body \<open>JSON.parse\<close> rejects yields no event and
  does not end the run: in both loops the body of the \<open>for\<close> loop only writes the
  diagnostic to the console and goes on. The records behind it are handled as if it had
  been absent. Within its batch: the \<open>for\<close> loop over the batch with the record and over
  the batch without it ends the same way (normally or with the same thrown error) and
  leaves the same state shown. For the whole run: when the read loop gets to a chunk \<open>v\<close>
  that completes the record, and \<open>w\<close> is a chunk that gives the same records and leftover
  without it, then the run on the stream with \<open>v\<close> and the run on the stream with \<open>w\<close> end
  the same way and show the same state; only the console differs.
\<close>

theorem malformed_record_skipped:
  assumes "prefix (js ''data: '') bad" and "parse (drop 6 bad) = None"
  shows "handle_line parse P st bad = (Next, st\<lparr>console := console st @ [SSE_parse_error]\<rparr>)
    \<and> vp_handle_line parse numeric vst bad = (Next, vst\<lparr>vp_console := vp_console vst @ [SSE_parse_error]\<rparr>)
    \<and> fst (for_lines (handle_line parse P) st (pre @ bad # post))
        = fst (for_lines (handle_line parse P) st (pre @ post))
    \<and> shown (snd (for_lines (handle_line parse P) st (pre @ bad # post)))
        = shown (snd (for_lines (handle_line parse P) st (pre @ post)))
    \<and> fst (for_lines (vp_handle_line parse numeric) vst (pre @ bad # post))
        = fst (for_lines (vp_handle_line parse numeric) vst (pre @ post))
    \<and> vp_shown (snd (for_lines (vp_handle_line parse numeric) vst (pre @ bad # post)))
        = vp_shown (snd (for_lines (vp_handle_line parse numeric) vst (pre @ post)))
    \<and> (after_chunks (handle_line parse P) (enter_loop (start_run P init)) reads = Some ls
       \<longrightarrow> split_records (buffer ls @ fst (decode (decoder ls) v)) = pre @ bad # post @ [left]
       \<longrightarrow> split_records (buffer ls @ fst (decode (decoder ls) w)) = pre @ post @ [left]
       \<longrightarrow> snd (decode (decoder ls) w) = snd (decode (decoder ls) v)
       \<longrightarrow> fst (try_block parse P (start_run P init) (Response is_ok stxt (Some (reads @ Chunk v # rest))))
             = fst (try_block parse P (start_run P init) (Response is_ok stxt (Some (reads @ Chunk w # rest))))
         \<and> shown (fst (runAnalysis parse P init (Response is_ok stxt (Some (reads @ Chunk v # rest)))))
             = shown (fst (runAnalysis parse P init (Response is_ok stxt (Some (reads @ Chunk w # rest))))))
    \<and> (after_chunks (vp_handle_line parse numeric) (enter_loop (vp_start_run vinit)) reads = Some vls
       \<longrightarrow> split_records (buffer vls @ fst (decode (decoder vls) v)) = pre @ bad # post @ [left]
       \<longrightarrow> split_records (buffer vls @ fst (decode (decoder vls) w)) = pre @ post @ [left]
       \<longrightarrow> snd (decode (decoder vls) w) = snd (decode (decoder vls) v)
       \<longrightarrow> vp_shown (fst (handleAnalyze parse numeric vinit (Response is_ok stxt (Some (reads @ Chunk v # rest)))))
             = vp_shown (fst (handleAnalyze parse numeric vinit (Response is_ok stxt (Some (reads @ Chunk w # rest))))))"
proof -
  note b = malformed_record_in_batch [where parse = parse and bad = bad and P = P and st = st
      and numeric = numeric and vst = vst and pre = pre and post = post, OF assms]
  note s = malformed_record_in_stream [where parse = parse and bad = bad and P = P
      and init = init and reads = reads and ls = ls and v = v and w = w and pre = pre
      and post = post and left = left and is_ok = is_ok and stxt = stxt and rest = rest
      and numeric = numeric and vinit = vinit and vls = vls, OF assms]
  from b s show ?thesis by blast
qed

theorem malformed_record_skipped_witness:
  \<open>prefix (js ''data: '') (js ''data: not-json'')
   \<and> sample_parse (drop 6 (js ''data: not-json'')) = None
   \<and> handle_line sample_parse crisis_pipeline idle_run (js ''data: not-json'')
       = (Next, idle_run\<lparr>console := console idle_run @ [SSE_parse_error]\<rparr>)
   \<and> shown (fst (runAnalysis sample_parse crisis_pipeline idle_run
                    (Response True [] (Some ([] @ Chunk bad_chunk # [])))))
       = shown (fst (runAnalysis sample_parse crisis_pipeline idle_run
                    (Response True [] (Some ([] @ Chunk late_chunk # [])))))
   \<and> vp_shown (fst (handleAnalyze sample_parse id sample_vp
                    (Response True [] (Some ([] @ Chunk bad_chunk # [])))))
       = vp_shown (fst (handleAnalyze sample_parse id sample_vp
                    (Response True [] (Some ([] @ Chunk late_chunk # [])))))\<close>
proof -
  let ?bad = "js ''data: not-json''"
  let ?post = \<open>[js ''data: {"agent":"a","content":"b"}'']\<close>
  let ?ls = "enter_loop (start_run crisis_pipeline idle_run)"
  let ?vls = "enter_loop (vp_start_run sample_vp)"
  have p: "prefix (js ''data: '') ?bad"
    by (simp add: js_def)
  have q: "sample_parse (drop 6 ?bad) = None"
    by (simp add: sample_parse_def js_def)
  have a: "after_chunks (handle_line sample_parse crisis_pipeline) ?ls [] = Some ?ls" by simp
  have v: "split_records (buffer ?ls @ fst (decode (decoder ?ls) bad_chunk)) = [] @ ?bad # ?post @ [[]]"
    by code_simp
  have w: "split_records (buffer ?ls @ fst (decode (decoder ?ls) late_chunk)) = [] @ ?post @ [[]]"
    by code_simp
  have d: "snd (decode (decoder ?ls) late_chunk) = snd (decode (decoder ?ls) bad_chunk)"
    by code_simp
  have va: "after_chunks (vp_handle_line sample_parse id) ?vls [] = Some ?vls" by simp
  have vv: "split_records (buffer ?vls @ fst (decode (decoder ?vls) bad_chunk)) = [] @ ?bad # ?post @ [[]]"
    by code_simp
  have vw: "split_records (buffer ?vls @ fst (decode (decoder ?vls) late_chunk)) = [] @ ?post @ [[]]"
    by code_simp
  have vd: "snd (decode (decoder ?vls) late_chunk) = snd (decode (decoder ?vls) bad_chunk)"
    by code_simp
  note t = malformed_record_skipped [where parse = sample_parse and bad = "?bad"
      and P = crisis_pipeline and st = idle_run and numeric = id and vst = sample_vp
      and pre = "[]" and post = "?post" and left = "[]" and init = idle_run and reads = "[]"
      and ls = "?ls" and v = bad_chunk and w = late_chunk and is_ok = True and stxt = "[]"
      and rest = "[]" and vinit = sample_vp and vls = "?vls", OF p q]
  from t p q a v w d va vv vw vd show ?thesis by blast
qed

section \<open>Error records\<close>

text \<open>
  C3. A well-formed record whose event has a populated (non-empty) \<open>error\<close> field and no
  \<open>done\<close> flag makes the loop body throw \<open>new Error(event.error)\<close> without dispatching
  anything. When the read loop gets to that record (the earlier reads delivered chunks,
  nothing threw, and the records before it in its batch did not stop the \<open>for\<close> loop),
  the run ends there, whatever follows in the batch and in the stream: \<open>runAnalysis\<close>
  reports the failure with that error through \<open>console.error("Analysis failed:", e)\<close>,
  \<open>handleAnalyze\<close> puts the literal message into its error slot and sets the status
  \<open>"error"\<close>; the outputs are those dispatched before the record.
\<close>

theorem error_record_fails_run:
  assumes "prefix (js ''data: '') line" and "parse (drop 6 line) = Some event"
    and "\<not> truthy_bool (done_flag event)" and "error_field event = Some m" and "m \<noteq> []"
  shows "handle_line parse P st line = (Throw (new_Error m), st)
    \<and> vp_handle_line parse numeric vst line = (Throw (new_Error m), vst)
    \<and> (after_chunks (handle_line parse P) (enter_loop (start_run P init)) reads = Some ls
         \<longrightarrow> batch ls v = pre @ line # post
         \<longrightarrow> all_next (handle_line parse P) (ui ls) pre = Some reached
         \<longrightarrow> runAnalysis parse P init (Response is_ok stxt (Some (reads @ Chunk v # rest)))
               = (reached\<lparr>console := console reached @ [Analysis_failed (new_Error m)],
                      isRunning := False, activeAgent := None\<rparr>,
                  Some \<lparr>locked = True, seen = No_end_seen\<rparr>))
    \<and> (screenshot vinit \<noteq> None \<and> productName vinit \<noteq> [] \<and> productPrice vinit \<noteq> []
         \<longrightarrow> after_chunks (vp_handle_line parse numeric) (enter_loop (vp_start_run vinit)) reads = Some vls
         \<longrightarrow> batch vls v = pre @ line # post
         \<longrightarrow> all_next (vp_handle_line parse numeric) (ui vls) pre = Some vreached
         \<longrightarrow> handleAnalyze parse numeric vinit (Response True stxt (Some (reads @ Chunk v # rest)))
               = (vreached\<lparr>vp_error := Some m, status := error, vp_activeAgent := None\<rparr>,
                  Some \<lparr>locked = True, seen = No_end_seen\<rparr>))"
proof (intro conjI impI)
  show hl: "handle_line parse P st line = (Throw (new_Error m), st)" for st
    using assms by (rule handle_line_error)
  show vl: "vp_handle_line parse numeric vst line = (Throw (new_Error m), vst)" for vst
    using assms by (rule vp_handle_line_error)
  {
    assume a: "after_chunks (handle_line parse P) (enter_loop (start_run P init)) reads = Some ls"
      and b: "batch ls v = pre @ line # post"
      and c: "all_next (handle_line parse P) (ui ls) pre = Some reached"
    note r = read_loop_throw_in_batch[OF a b c hl, of rest]
    obtain x ls' where rl: "read_loop (handle_line parse P) (enter_loop (start_run P init)) (reads @ Chunk v # rest) = (x, ls')"
      by (cases "read_loop (handle_line parse P) (enter_loop (start_run P init)) (reads @ Chunk v # rest)")
    with r have "x = Some (new_Error m)" "ui ls' = reached" "reader ls' = \<lparr>locked = True, seen = No_end_seen\<rparr>"
      by (simp_all add: enter_loop_def)
    with rl show "runAnalysis parse P init (Response is_ok stxt (Some (reads @ Chunk v # rest)))
               = (reached\<lparr>console := console reached @ [Analysis_failed (new_Error m)],
                      isRunning := False, activeAgent := None\<rparr>,
                  Some \<lparr>locked = True, seen = No_end_seen\<rparr>)"
      by (simp add: runAnalysis_def try_block_def catch_block_def finally_block_def error_name_not_abort)
  }
  {
    assume f: "screenshot vinit \<noteq> None \<and> productName vinit \<noteq> [] \<and> productPrice vinit \<noteq> []"
      and a: "after_chunks (vp_handle_line parse numeric) (enter_loop (vp_start_run vinit)) reads = Some vls"
      and b: "batch vls v = pre @ line # post"
      and c: "all_next (vp_handle_line parse numeric) (ui vls) pre = Some vreached"
    note r = read_loop_throw_in_batch[OF a b c vl, of rest]
    obtain x ls' where rl: "read_loop (vp_handle_line parse numeric) (enter_loop (vp_start_run vinit)) (reads @ Chunk v # rest) = (x, ls')"
      by (cases "read_loop (vp_handle_line parse numeric) (enter_loop (vp_start_run vinit)) (reads @ Chunk v # rest)")
    with r have "x = Some (new_Error m)" "ui ls' = vreached" "reader ls' = \<lparr>locked = True, seen = No_end_seen\<rparr>"
      by (simp_all add: enter_loop_def)
    with rl f show "handleAnalyze parse numeric vinit (Response True stxt (Some (reads @ Chunk v # rest)))
               = (vreached\<lparr>vp_error := Some m, status := error, vp_activeAgent := None\<rparr>,
                  Some \<lparr>locked = True, seen = No_end_seen\<rparr>)"
      by (simp add: handleAnalyze_def vp_try_block_def vp_catch_block_def new_Error_def)
  }
qed

theorem error_record_fails_run_witness:
  \<open>runAnalysis sample_parse crisis_pipeline idle_run
       (Response True [] (Some [Chunk error_chunk, Chunk late_chunk]))
     = (\<lparr>outputs = [output_ab], isRunning = False, activeAgent = None, result = (),
         console = [Analysis_failed (new_Error (js ''boom''))]\<rparr>,
        Some \<lparr>locked = True, seen = No_end_seen\<rparr>)
   \<and> handleAnalyze sample_parse id sample_vp
       (Response True [] (Some [Chunk error_chunk, Chunk late_chunk]))
     = (sample_vp\<lparr>status := error, messages := [event_ab], vp_error := Some (js ''boom'')\<rparr>,
        Some \<lparr>locked = True, seen = No_end_seen\<rparr>)\<close>
proof -
  let ?line = \<open>js ''data: {"error":"boom"}''\<close>
  let ?pre = \<open>[js ''data: {"agent":"a","content":"b"}'']\<close>
  let ?post = \<open>[js ''data: {"agent":"monitor","content":"ok"}'']\<close>
  let ?ev = "empty_event\<lparr>error_field := Some (js ''boom'')\<rparr>"
  let ?ls = "enter_loop (start_run crisis_pipeline idle_run)"
  let ?vls = "enter_loop (vp_start_run sample_vp)"
  have 1: "prefix (js ''data: '') ?line" by (simp add: js_def)
  have 2: "sample_parse (drop 6 ?line) = Some ?ev" by (simp add: sample_parse_def js_def)
  have 3: "\<not> truthy_bool (done_flag ?ev)" by (simp add: empty_event_def)
  have 4: "error_field ?ev = Some (js ''boom'')" by simp
  have 5: "js ''boom'' \<noteq> []" by (simp add: js_def)
  have a: "after_chunks (handle_line sample_parse crisis_pipeline) ?ls [] = Some ?ls" by simp
  have b: "batch ?ls error_chunk = ?pre @ ?line # ?post" by code_simp
  have c: "all_next (handle_line sample_parse crisis_pipeline) (ui ?ls) ?pre
             = Some \<lparr>outputs = [output_ab], isRunning = True, activeAgent = Some (js ''a''),
                     result = (), console = []\<rparr>"
    by code_simp
  have f: "screenshot sample_vp \<noteq> None \<and> productName sample_vp \<noteq> [] \<and> productPrice sample_vp \<noteq> []"
    by (simp add: sample_vp_def js_def)
  have va: "after_chunks (vp_handle_line sample_parse id) ?vls [] = Some ?vls" by simp
  have vb: "batch ?vls error_chunk = ?pre @ ?line # ?post" by code_simp
  have vc: "all_next (vp_handle_line sample_parse id) (ui ?vls) ?pre
             = Some (sample_vp\<lparr>status := analyzing, messages := [event_ab],
                      vp_activeAgent := Some (js ''a'')\<rparr>)"
    by code_simp
  note t = error_record_fails_run [where parse = sample_parse and line = "?line"
      and event = "?ev" and m = "js ''boom''" and P = crisis_pipeline and numeric = id
      and reads = "[]" and v = error_chunk and pre = "?pre" and post = "?post"
      and rest = "[Chunk late_chunk]" and init = idle_run and vinit = sample_vp and stxt = "[]"
      and is_ok = True, OF 1 2 3 4 5]
  from t a b c have r: "runAnalysis sample_parse crisis_pipeline idle_run
       (Response True [] (Some [Chunk error_chunk, Chunk late_chunk]))
     = (\<lparr>outputs = [output_ab], isRunning = False, activeAgent = None, result = (),
         console = [Analysis_failed (new_Error (js ''boom''))]\<rparr>,
        Some \<lparr>locked = True, seen = No_end_seen\<rparr>)"
    by simp
  from t f va vb vc have h: "handleAnalyze sample_parse id sample_vp
       (Response True [] (Some [Chunk error_chunk, Chunk late_chunk]))
     = (sample_vp\<lparr>status := error, messages := [event_ab], vp_error := Some (js ''boom'')\<rparr>,
        Some \<lparr>locked = True, seen = No_end_seen\<rparr>)"
    by (simp add: sample_vp_def)
  from r h show ?thesis by simp
qed

section \<open>Dispatch\<close>

text \<open>
  C5, as amended. For a parsed event that is neither a \<open>done\<close> event nor an error event:
  \<open>runAnalysis\<close> (market-trends, launch-detector, crisis-detector) appends it to the
  outputs and marks its agent active exactly when \<open>agent\<close> and \<open>content\<close> are both present
  and non-empty, and otherwise leaves outputs and active agent alone; \<open>handleAnalyze\<close>
  (visual-pricing) appends the event to its messages and marks its agent active exactly
  when \<open>agent\<close> is present and non-empty, whether or not there is a \<open>content\<close>, and
  otherwise leaves its state alone.
\<close>

theorem dispatch_condition:
  assumes "prefix (js ''data: '') line" and "parse (drop 6 line) = Some event"
    and "\<not> truthy_bool (done_flag event)" and "\<not> truthy_str (error_field event)"
  shows "fst (handle_line parse P st line) = Next
    \<and> (truthy_str (agent event) \<and> truthy_str (content event)
         \<longrightarrow> (\<exists>a c. agent event = Some a \<and> content event = Some c
                \<and> outputs (snd (handle_line parse P st line))
                    = outputs st @ [\<lparr>out_agent = a, out_content = c,
                         thoughtType = (if truthy_str (thought_type event) then thought_type event else None)\<rparr>]
                \<and> activeAgent (snd (handle_line parse P st line)) = Some a))
    \<and> (\<not> (truthy_str (agent event) \<and> truthy_str (content event))
         \<longrightarrow> outputs (snd (handle_line parse P st line)) = outputs st
           \<and> activeAgent (snd (handle_line parse P st line)) = activeAgent st)
    \<and> fst (vp_handle_line parse numeric vst line) = Next
    \<and> (truthy_str (agent event)
         \<longrightarrow> messages (snd (vp_handle_line parse numeric vst line)) = messages vst @ [event]
           \<and> vp_activeAgent (snd (vp_handle_line parse numeric vst line)) = agent event)
    \<and> (\<not> truthy_str (agent event) \<longrightarrow> snd (vp_handle_line parse numeric vst line) = vst)"
proof -
  have e: "error_field event = None \<or> error_field event = Some []"
    using assms(4) by (cases "error_field event") auto
  have h: "handle_line parse P st line =
      (Next, (dispatch event st)\<lparr>result := on_event P event (result (dispatch event st))\<rparr>)"
    using assms(1-3) e by (auto simp add: handle_line_def Let_def)
  have v: "vp_handle_line parse numeric vst line = (Next, vp_dispatch numeric event vst)"
    using assms(1-3) e by (auto simp add: vp_handle_line_def)
  show ?thesis
    unfolding h v
    by (cases "agent event"; cases "content event")
       (auto simp add: dispatch_def vp_dispatch_def Let_def split: option.splits)
qed

theorem dispatch_condition_witness:
  \<open>prefix (js ''data: '') (js ''data: {"agent":"scout"}'')
   \<and> sample_parse (drop 6 (js ''data: {"agent":"scout"}'')) = Some (empty_event\<lparr>agent := Some (js ''scout'')\<rparr>)
   \<and> outputs (snd (handle_line sample_parse crisis_pipeline idle_run (js ''data: {"agent":"scout"}'')))
       = outputs idle_run
   \<and> activeAgent (snd (handle_line sample_parse crisis_pipeline idle_run (js ''data: {"agent":"scout"}'')))
       = activeAgent idle_run
   \<and> messages (snd (vp_handle_line sample_parse id sample_vp (js ''data: {"agent":"scout"}'')))
       = messages sample_vp @ [empty_event\<lparr>agent := Some (js ''scout'')\<rparr>]
   \<and> truthy_str (agent event_ab) \<and> truthy_str (content event_ab)
   \<and> (\<exists>a c. agent event_ab = Some a \<and> content event_ab = Some c
         \<and> outputs (snd (handle_line sample_parse crisis_pipeline idle_run
                           (js ''data: {"agent":"a","content":"b"}'')))
             = outputs idle_run @ [\<lparr>out_agent = a, out_content = c,
                 thoughtType = (if truthy_str (thought_type event_ab) then thought_type event_ab else None)\<rparr>]
         \<and> activeAgent (snd (handle_line sample_parse crisis_pipeline idle_run
                           (js ''data: {"agent":"a","content":"b"}''))) = Some a)\<close>
proof -
  let ?line2 = \<open>js ''data: {"agent":"a","content":"b"}''\<close>
  have b1: "prefix (js ''data: '') ?line2" by (simp add: js_def)
  have b2: "sample_parse (drop 6 ?line2) = Some event_ab"
    by (simp add: sample_parse_def js_def event_ab_def)
  have b3: "\<not> truthy_bool (done_flag event_ab)" by (simp add: event_ab_def empty_event_def)
  have b4: "\<not> truthy_str (error_field event_ab)" by (simp add: event_ab_def empty_event_def)
  have b5: "truthy_str (agent event_ab) \<and> truthy_str (content event_ab)"
    by (simp add: event_ab_def js_def)
  note t2 = dispatch_condition [where parse = sample_parse and line = "?line2" and event = event_ab
      and P = crisis_pipeline and st = idle_run and numeric = id and vst = sample_vp, OF b1 b2 b3 b4]
  let ?line = \<open>js ''data: {"agent":"scout"}''\<close>
  let ?ev = "empty_event\<lparr>agent := Some (js ''scout'')\<rparr>"
  have 1: "prefix (js ''data: '') ?line" by (simp add: js_def)
  have 2: "sample_parse (drop 6 ?line) = Some ?ev" by (simp add: sample_parse_def js_def)
  have 3: "\<not> truthy_bool (done_flag ?ev)" by (simp add: empty_event_def)
  have 4: "\<not> truthy_str (error_field ?ev)" by (simp add: empty_event_def)
  have 5: "truthy_str (agent ?ev)" by (simp add: js_def)
  have 6: "\<not> (truthy_str (agent ?ev) \<and> truthy_str (content ?ev))" by (simp add: empty_event_def)
  note t = dispatch_condition [where parse = sample_parse and line = "?line" and event = "?ev"
      and P = crisis_pipeline and st = idle_run and numeric = id and vst = sample_vp, OF 1 2 3 4]
  from t2 b5 have e: "\<exists>a c. agent event_ab = Some a \<and> content event_ab = Some c
         \<and> outputs (snd (handle_line sample_parse crisis_pipeline idle_run ?line2))
             = outputs idle_run @ [\<lparr>out_agent = a, out_content = c,
                 thoughtType = (if truthy_str (thought_type event_ab) then thought_type event_ab else None)\<rparr>]
         \<and> activeAgent (snd (handle_line sample_parse crisis_pipeline idle_run ?line2)) = Some a"
    by blast
  from t 1 2 5 6 have r: "outputs (snd (handle_line sample_parse crisis_pipeline idle_run ?line)) = outputs idle_run
      \<and> activeAgent (snd (handle_line sample_parse crisis_pipeline idle_run ?line)) = activeAgent idle_run
      \<and> messages (snd (vp_handle_line sample_parse id sample_vp ?line))
          = messages sample_vp @ [?ev]"
    by blast
  from 1 2 r b5 e show ?thesis by blast
qed

text \<open>
  C5 as stated fails on \<open>handleAnalyze\<close>: an event with an agent and no content is
  appended to the messages and its agent is marked active.
\<close>

theorem agent_without_content_dispatched:
  \<open>sample_parse (drop 6 (js ''data: {"agent":"scout"}'')) = Some (empty_event\<lparr>agent := Some (js ''scout'')\<rparr>)
   \<and> content (empty_event\<lparr>agent := Some (js ''scout'')\<rparr>) = None
   \<and> messages (snd (vp_handle_line sample_parse id sample_vp (js ''data: {"agent":"scout"}'')))
       = [empty_event\<lparr>agent := Some (js ''scout'')\<rparr>]
   \<and> vp_activeAgent (snd (vp_handle_line sample_parse id sample_vp (js ''data: {"agent":"scout"}'')))
       = Some (js ''scout'')\<close>
  by code_simp

section \<open>The output accumulator\<close>

text \<open>
  C8. \<open>runAnalysis\<close> clears the outputs at the start of every run (\<open>setOutputs([])\<close>), so
  that what a run leaves does not depend on the outputs of the run before; and within a
  run every step only appends: across the handling of one record, of one batch, of one
  chunk and of the whole stream the earlier outputs are a prefix of the later ones, and
  the \<open>catch\<close> and \<open>finally\<close> blocks leave them as they are.
\<close>

theorem outputs_append_only:
  "outputs (start_run P st) = []
   \<and> prefix (outputs st) (outputs (snd (handle_line parse P st line)))
   \<and> prefix (outputs st) (outputs (snd (for_lines (handle_line parse P) st lines)))
   \<and> prefix (outputs (ui ls)) (outputs (ui (snd (iteration (handle_line parse P) ls v))))
   \<and> prefix (outputs (ui ls)) (outputs (ui (snd (read_loop (handle_line parse P) ls reads))))
   \<and> outputs (finally_block (catch_block thrown st)) = outputs st
   \<and> runAnalysis parse P (st\<lparr>outputs := previous\<rparr>) response = runAnalysis parse P st response"
  by (simp add: start_run_def handle_line_extends for_lines_extends iteration_extends
      read_loop_extends finally_block_def catch_block_def runAnalysis_def split: option.splits)

section \<open>The leftover buffer\<close>

text \<open>
  C10. At the end of every iteration of the read loop, whatever state it started in and
  however the \<open>for\<close> loop ended, the leftover buffer contains no occurrence of the record
  delimiter; the text accumulated in the iteration is exactly the records handed to the
  \<open>for\<close> loop, each followed by its delimiter, followed by the leftover: every record
  whose delimiter has arrived is consumed in that same iteration.
\<close>

theorem leftover_has_no_delimiter:
  "\<not> has_delimiter (buffer (snd (iteration h ls v)))
   \<and> (\<forall>a b. buffer (snd (iteration h ls v)) \<noteq> a @ [0x0A, 0x0A] @ b)
   \<and> concat (map (\<lambda>l. l @ [0x0A, 0x0A]) (batch ls v)) @ buffer (snd (iteration h ls v))
       = buffer ls @ fst (decode (decoder ls) v)"
proof -
  let ?t = "buffer ls @ fst (decode (decoder ls) v)"
  have b: "buffer (snd (iteration h ls v)) = last (split_records ?t)"
    by (simp add: iteration_batch split: prod.splits)
  have n: "\<not> has_delimiter (last (split_records ?t))"
    by (rule no_delimiter_in_pieces [of _ ?t]) simp
  have j: "concat (map (\<lambda>l. l @ [0x0A, 0x0A]) (batch ls v)) @ last (split_records ?t) = ?t"
    using split_records_join[of ?t] by (simp add: batch_def pop_def)
  from n j show ?thesis unfolding b using has_delimiter_iff[of "last (split_records ?t)"] by auto
qed

section \<open>Cancellation\<close>

text \<open>
  C7. When the caller cancels a run of \<open>runAnalysis\<close>, the pending \<open>fetch\<close> or
  \<open>reader.read()\<close> rejects with an error named "AbortError". Whether this happens
  before the response arrives or in the middle of the stream (after reads that delivered
  chunks and threw nothing), the \<open>catch\<close> block tells it from other errors by its name and
  reports nothing: the console holds no \<open>Analysis failed\<close> entry of this run, only the
  diagnostics of skipped records; the \<open>finally\<close> block clears the running flag and the
  active agent, and the outputs dispatched so far stay. The running flag that
  \<open>stopAnalysis\<close> has cleared itself in between makes no difference to this end. An
  error of any other name is reported.
\<close>

theorem cancellation_is_not_failure:
  assumes "err_name e = js ''AbortError''"
  shows "runAnalysis parse P init (FetchThrows e)
           = ((start_run P init)\<lparr>isRunning := False, activeAgent := None\<rparr>, None)
    \<and> (after_chunks (handle_line parse P) (enter_loop (start_run P init)) reads = Some ls
         \<longrightarrow> runAnalysis parse P init (Response is_ok stxt (Some (reads @ ReadThrows e # rest)))
               = ((ui ls)\<lparr>isRunning := False, activeAgent := None\<rparr>,
                  Some \<lparr>locked = True, seen = Read_rejected\<rparr>)
           \<and> (\<exists>k. console (ui ls) = console init @ replicate k SSE_parse_error))
    \<and> finally_block (catch_block (Some e) (stopAnalysis st)) = st\<lparr>isRunning := False, activeAgent := None\<rparr>
    \<and> (err_name other \<noteq> js ''AbortError''
         \<longrightarrow> runAnalysis parse P init (FetchThrows other)
               = ((start_run P init)\<lparr>console := console init @ [Analysis_failed other],
                     isRunning := False, activeAgent := None\<rparr>, None))"
proof (intro conjI impI)
  show "finally_block (catch_block (Some e) (stopAnalysis st)) = st\<lparr>isRunning := False, activeAgent := None\<rparr>"
    using assms by (simp add: catch_block_def finally_block_def stopAnalysis_def)
next
  assume "err_name other \<noteq> js ''AbortError''"
  then show "runAnalysis parse P init (FetchThrows other)
               = ((start_run P init)\<lparr>console := console init @ [Analysis_failed other],
                     isRunning := False, activeAgent := None\<rparr>, None)"
    by (simp add: runAnalysis_def try_block_def catch_block_def finally_block_def start_run_def)
next
  show "runAnalysis parse P init (FetchThrows e)
           = ((start_run P init)\<lparr>isRunning := False, activeAgent := None\<rparr>, None)"
    using assms by (simp add: runAnalysis_def try_block_def catch_block_def finally_block_def)
next
  assume a: "after_chunks (handle_line parse P) (enter_loop (start_run P init)) reads = Some ls"
  show "runAnalysis parse P init (Response is_ok stxt (Some (reads @ ReadThrows e # rest)))
               = ((ui ls)\<lparr>isRunning := False, activeAgent := None\<rparr>,
                  Some \<lparr>locked = True, seen = Read_rejected\<rparr>)"
    using assms read_loop_read_throws[OF a, of e rest]
    by (simp add: runAnalysis_def try_block_def catch_block_def finally_block_def enter_loop_def)
  show "\<exists>k. console (ui ls) = console init @ replicate k SSE_parse_error"
    using after_chunks_parse_errors[OF a]
    by (simp add: parse_errors_only_def enter_loop_def start_run_def)
qed

theorem cancellation_is_not_failure_witness:
  \<open>err_name abort_error = js ''AbortError''
   \<and> runAnalysis sample_parse crisis_pipeline idle_run (FetchThrows abort_error)
       = ((start_run crisis_pipeline idle_run)\<lparr>isRunning := False, activeAgent := None\<rparr>, None)
   \<and> runAnalysis sample_parse crisis_pipeline idle_run
         (Response True [] (Some ([Chunk late_chunk] @ ReadThrows abort_error # [])))
       = (\<lparr>outputs = [output_ab], isRunning = False, activeAgent = None, result = (), console = []\<rparr>,
          Some \<lparr>locked = True, seen = Read_rejected\<rparr>)
   \<and> err_name (new_Error (js ''Failed to fetch'')) \<noteq> js ''AbortError''
   \<and> runAnalysis sample_parse crisis_pipeline idle_run (FetchThrows (new_Error (js ''Failed to fetch'')))
       = ((start_run crisis_pipeline idle_run)
            \<lparr>console := console idle_run @ [Analysis_failed (new_Error (js ''Failed to fetch''))],
             isRunning := False, activeAgent := None\<rparr>, None)\<close>
proof -
  have o: "err_name (new_Error (js ''Failed to fetch'')) \<noteq> js ''AbortError''"
    by (rule error_name_not_abort)
  let ?ls = "\<lparr>buffer = [], decoder = new_decoder\<lparr>bom_seen := True\<rparr>,
               reader = \<lparr>locked = True, seen = No_end_seen\<rparr>,
               ui = \<lparr>outputs = [output_ab], isRunning = True, activeAgent = Some (js ''a''),
                      result = (), console = []\<rparr>\<rparr>"
  have 1: "err_name abort_error = js ''AbortError''" by (simp add: abort_error_def)
  have a: "after_chunks (handle_line sample_parse crisis_pipeline)
             (enter_loop (start_run crisis_pipeline idle_run)) [Chunk late_chunk] = Some ?ls"
    by code_simp
  note t = cancellation_is_not_failure [where e = abort_error and parse = sample_parse
      and P = crisis_pipeline and init = idle_run and reads = "[Chunk late_chunk]" and ls = "?ls"
      and is_ok = True and stxt = "[]" and rest = "[]"
      and other = "new_Error (js ''Failed to fetch'')", OF 1]
  from t a have "runAnalysis sample_parse crisis_pipeline idle_run
         (Response True [] (Some ([Chunk late_chunk] @ ReadThrows abort_error # [])))
       = ((ui ?ls)\<lparr>isRunning := False, activeAgent := None\<rparr>,
          Some \<lparr>locked = True, seen = Read_rejected\<rparr>)"
    by blast
  then have "runAnalysis sample_parse crisis_pipeline idle_run
         (Response True [] (Some ([Chunk late_chunk] @ ReadThrows abort_error # [])))
       = (\<lparr>outputs = [output_ab], isRunning = False, activeAgent = None, result = (), console = []\<rparr>,
          Some \<lparr>locked = True, seen = Read_rejected\<rparr>)"
    by simp
  with t 1 o show ?thesis by blast
qed

section \<open>The reader\<close>

text \<open>
  C9, as amended. The reader is never released: neither function calls \<open>releaseLock()\<close> or
  \<open>cancel()\<close>, and on every exit path of a run that obtained a reader the body stream is
  still locked to that reader when the run ends. This holds for every response and for
  every sequence of reads, that is however the loop is left: by a read that reports the
  end of the stream, by a read that throws, or by a record whose handling throws.
\<close>

theorem reader_never_released:
  "(snd (runAnalysis parse P init response) = Some rd \<longrightarrow> locked rd)
   \<and> (snd (handleAnalyze parse numeric vinit response) = Some rd \<longrightarrow> locked rd)
   \<and> map_option locked (snd (runAnalysis parse P init (Response is_ok stxt (Some reads)))) = Some True
   \<and> (screenshot vinit \<noteq> None \<and> productName vinit \<noteq> [] \<and> productPrice vinit \<noteq> [] \<longrightarrow>
        map_option locked (snd (handleAnalyze parse numeric vinit (Response True stxt (Some reads))))
          = Some True)"
proof (intro conjI impI)
  assume "snd (runAnalysis parse P init response) = Some rd"
  then show "locked rd"
    using try_block_locked[of parse P "start_run P init" response]
    by (auto simp add: runAnalysis_def split: prod.splits)
next
  assume "snd (handleAnalyze parse numeric vinit response) = Some rd"
  then show "locked rd"
    using vp_try_block_locked[of parse numeric "vp_start_run vinit" response]
    by (auto simp add: handleAnalyze_def split: prod.splits if_splits)
next
  show "map_option locked (snd (runAnalysis parse P init (Response is_ok stxt (Some reads)))) = Some True"
    by (simp add: runAnalysis_Response read_loop_locked) (simp add: enter_loop_def)
next
  assume "screenshot vinit \<noteq> None \<and> productName vinit \<noteq> [] \<and> productPrice vinit \<noteq> []"
  then show "map_option locked (snd (handleAnalyze parse numeric vinit (Response True stxt (Some reads))))
          = Some True"
    by (simp add: handleAnalyze_eq vp_try_block_Response read_loop_locked) (simp add: enter_loop_def)
qed

theorem reader_never_released_witness:
  \<open>snd (runAnalysis sample_parse crisis_pipeline idle_run
          (Response True [] (Some [Chunk boom_chunk, Chunk late_chunk]))) \<noteq> None
   \<and> locked (the (snd (runAnalysis sample_parse crisis_pipeline idle_run
          (Response True [] (Some [Chunk boom_chunk, Chunk late_chunk])))))
   \<and> locked (the (snd (handleAnalyze sample_parse id sample_vp
          (Response True [] (Some [Chunk boom_chunk, Chunk late_chunk])))))
   \<and> map_option locked (snd (runAnalysis sample_parse crisis_pipeline idle_run
          (Response True [] (Some [Chunk late_chunk])))) = Some True
   \<and> map_option locked (snd (runAnalysis sample_parse crisis_pipeline idle_run
          (Response True [] (Some [Chunk late_chunk, ReadThrows abort_error])))) = Some True
   \<and> screenshot sample_vp \<noteq> None \<and> productName sample_vp \<noteq> [] \<and> productPrice sample_vp \<noteq> []
   \<and> map_option locked (snd (handleAnalyze sample_parse id sample_vp
          (Response True [] (Some [Chunk late_chunk])))) = Some True\<close>
proof -
  let ?resp = "Response True [] (Some [Chunk boom_chunk, Chunk late_chunk])"
  let ?X = "snd (runAnalysis sample_parse crisis_pipeline idle_run ?resp)"
  let ?Y = "snd (handleAnalyze sample_parse id sample_vp ?resp)"
  have x: "?X \<noteq> None" by code_simp
  have y: "?Y \<noteq> None" by code_simp
  have xs: "?X = Some (the ?X)" using x by simp
  have ys: "?Y = Some (the ?Y)" using y by simp
  have f: "screenshot sample_vp \<noteq> None \<and> productName sample_vp \<noteq> [] \<and> productPrice sample_vp \<noteq> []"
    by (simp add: sample_vp_def js_def)
  note a = reader_never_released [where parse = sample_parse and P = crisis_pipeline
      and init = idle_run and numeric = id and vinit = sample_vp and response = "?resp"
      and rd = "the ?X" and is_ok = True and stxt = "[]" and reads = "[Chunk late_chunk]"]
  note b = reader_never_released [where parse = sample_parse and P = crisis_pipeline
      and init = idle_run and numeric = id and vinit = sample_vp and response = "?resp"
      and rd = "the ?Y" and is_ok = True and stxt = "[]"
      and reads = "[Chunk late_chunk, ReadThrows abort_error]"]
  from a b x xs ys f show ?thesis by blast
qed

text \<open>
  C9 as stated fails: a run that ended on an error record has reported the failure and
  has not released its reader.
\<close>

theorem reader_left_locked_after_error:
  \<open>console (fst (runAnalysis sample_parse crisis_pipeline idle_run
       (Response True [] (Some [Chunk boom_chunk]))))
     = [Analysis_failed (new_Error (js ''boom''))]
   \<and> map_option locked (snd (runAnalysis sample_parse crisis_pipeline idle_run
       (Response True [] (Some [Chunk boom_chunk])))) = Some True
   \<and> status (fst (handleAnalyze sample_parse id sample_vp
       (Response True [] (Some [Chunk boom_chunk])))) = error
   \<and> map_option locked (snd (handleAnalyze sample_parse id sample_vp
       (Response True [] (Some [Chunk boom_chunk])))) = Some True\<close>
  by code_simp

section \<open>Records behind a \<open>done\<close> event\<close>

text \<open>
  C2, at inputs where it fails. In \<open>runAnalysis\<close> the \<open>break\<close> on a \<open>done\<close> event leaves
  the \<open>for\<close> loop only; the \<open>while\<close> loop reads on, and a record that arrives in a later
  chunk is dispatched and its forecast is surfaced. In \<open>handleAnalyze\<close> a \<open>done\<close> event
  sets the status and goes on with the next record (\<open>continue\<close>), so that even a record
  behind it in the same chunk is dispatched.
\<close>

theorem records_after_done_dispatched:
  \<open>fst (runAnalysis sample_parse trends_pipeline idle_trends
       (Response True [] (Some [Chunk done_chunk, Chunk forecast_chunk])))
     = \<lparr>outputs = [\<lparr>out_agent = js ''f'', out_content = js ''c'', thoughtType = None\<rparr>],
        isRunning = False, activeAgent = None,
        result = \<lparr>forecast = Some (JObj [(js ''direction'', JStr (js ''up''))]), marketData = None\<rparr>,
        console = []\<rparr>
   \<and> messages (fst (handleAnalyze sample_parse id sample_vp
       (Response True [] (Some [Chunk (done_chunk @ late_chunk)])))) = [event_ab]\<close>
  by code_simp

text \<open>
  C1, at an input where it fails. The same bytes, a \<open>done\<close> record followed by one more
  record, are given to \<open>runAnalysis\<close> as one chunk and as two chunks. In one chunk the
  \<open>break\<close> leaves the \<open>for\<close> loop before the second record is parsed, and nothing is
  dispatched; in two chunks the second record is parsed and dispatched. (Where no
  record follows a \<open>done\<close> record the chunking makes no difference:
  \<open>runAnalysis_chunk_independent_done_last\<close>; for \<open>handleAnalyze\<close> it never does:
  \<open>handleAnalyze_chunk_independent\<close>.)
\<close>

theorem chunking_changes_events_after_done:
  \<open>outputs (fst (runAnalysis sample_parse crisis_pipeline idle_run
       (Response True [] (Some [Chunk (done_chunk @ late_chunk)])))) = []
   \<and> outputs (fst (runAnalysis sample_parse crisis_pipeline idle_run
       (Response True [] (Some [Chunk done_chunk, Chunk late_chunk])))) = [output_ab]\<close>
  by code_simp

end
